theory Spec2Isabelle
  imports Main
begin

section \<open>JavaScript values and strings\<close>

text \<open>
  The stream decoders of \<^verbatim>\<open>StreamHandler.js\<close> work on text and on the values that
  \<^verbatim>\<open>JSON.parse\<close> returns. A JavaScript string is modelled as a \<^typ>\<open>string\<close>, a list of
  code units; HOL's \<^typ>\<open>char\<close> has 256 values, so code units above \<open>0xFF\<close> are outside the
  model. Numbers are kept abstract (the type variable \<open>'n\<close>): the code never computes with
  them, it only tests their truthiness and concatenates them to a string.
\<close>

datatype 'n js_value =
    Undefined
  | Null
  | Bool bool
  | Num 'n
  | Str string
  | Arr "'n js_value list"
  | Obj "(string \<times> 'n js_value) list"

text \<open>
  What the code takes from its JavaScript environment and from modules of the repository
  that are not part of the decoder: \<^verbatim>\<open>JSON.parse\<close> (\<open>None\<close> is a thrown SyntaxError),
  which numbers are falsy (\<open>0\<close>, \<open>-0\<close>, \<open>NaN\<close>), how a number prints, the TypeError object the
  engine raises (its message text is engine specific), and \<^verbatim>\<open>formatThinkingContent\<close> of
  \<^verbatim>\<open>utils/formatters.js\<close>.
\<close>

record 'n js_env =
  JSON_parse :: "string \<Rightarrow> 'n js_value option"
  number_falsy :: "'n \<Rightarrow> bool"
  number_to_string :: "'n \<Rightarrow> string"
  TypeError :: "'n js_value"
  formatThinkingContent :: "'n js_value \<Rightarrow> 'n js_value"

fun truthy :: "'n js_env \<Rightarrow> 'n js_value \<Rightarrow> bool" where
  "truthy env Undefined = False"
| "truthy env Null = False"
| "truthy env (Bool b) = b"
| "truthy env (Num n) = (\<not> number_falsy env n)"
| "truthy env (Str s) = (s \<noteq> [])"
| "truthy env (Arr xs) = True"
| "truthy env (Obj kvs) = True"

definition own_property :: "(string \<times> 'n js_value) list \<Rightarrow> string \<Rightarrow> 'n js_value" where
  "own_property kvs k = (case map_of kvs k of None \<Rightarrow> Undefined | Some v \<Rightarrow> v)"

text \<open>
  \<^verbatim>\<open>v.k\<close> for the property names the decoders read (\<^verbatim>\<open>choices\<close>, \<^verbatim>\<open>delta\<close>, \<^verbatim>\<open>content\<close>,
  \<^verbatim>\<open>tool_calls\<close>, \<^verbatim>\<open>function\<close>, \<^verbatim>\<open>id\<close>, \<^verbatim>\<open>name\<close>, \<^verbatim>\<open>arguments\<close>, \<^verbatim>\<open>finish_reason\<close>, \<^verbatim>\<open>type\<close>,
  \<^verbatim>\<open>text\<close>, \<^verbatim>\<open>content_block\<close>, \<^verbatim>\<open>input\<close>, \<^verbatim>\<open>candidates\<close>, \<^verbatim>\<open>parts\<close>, \<^verbatim>\<open>functionCall\<close>, \<^verbatim>\<open>args\<close>,
  \<^verbatim>\<open>finishReason\<close>, \<^verbatim>\<open>message\<close>, \<^verbatim>\<open>stack\<close>): none of them is defined on the prototype of
  a string, number, boolean, array or plain object, so only an object's own property can
  answer. Reading a property of \<^verbatim>\<open>undefined\<close> or \<^verbatim>\<open>null\<close> throws a TypeError: \<open>None\<close>.
\<close>

fun member :: "'n js_value \<Rightarrow> string \<Rightarrow> 'n js_value option" where
  "member Undefined k = None"
| "member Null k = None"
| "member (Obj kvs) k = Some (own_property kvs k)"
| "member v k = Some Undefined"

text \<open>
  \<^verbatim>\<open>v?.k\<close>, and also \<^verbatim>\<open>v.k\<close> where the code has just tested that \<^verbatim>\<open>v\<close> is truthy.
\<close>

definition get :: "'n js_value \<Rightarrow> string \<Rightarrow> 'n js_value" where
  "get v k = (case member v k of None \<Rightarrow> Undefined | Some x \<Rightarrow> x)"

text \<open>\<^verbatim>\<open>v[0]\<close> where \<^verbatim>\<open>v\<close> is truthy (so it cannot throw).\<close>

fun index0 :: "'n js_value \<Rightarrow> 'n js_value" where
  "index0 (Arr xs) = (case xs of [] \<Rightarrow> Undefined | x # _ \<Rightarrow> x)"
| "index0 (Str s) = (case s of [] \<Rightarrow> Undefined | c # _ \<Rightarrow> Str [c])"
| "index0 (Obj kvs) = own_property kvs ''0''"
| "index0 v = Undefined"

text \<open>
  The values a \<^verbatim>\<open>for (const x of v)\<close> loop visits: the elements of an array, the
  characters of a string; any other value is not iterable and the loop throws a TypeError
  (\<open>None\<close>).
\<close>

fun iterate :: "'n js_value \<Rightarrow> 'n js_value list option" where
  "iterate (Arr xs) = Some xs"
| "iterate (Str s) = Some (map (\<lambda>c. Str [c]) s)"
| "iterate v = None"

fun join :: "string \<Rightarrow> string list \<Rightarrow> string" where
  "join sep [] = []"
| "join sep [x] = x"
| "join sep (x # y # ys) = x @ sep @ join sep (y # ys)"

fun sequence_options :: "'a option list \<Rightarrow> 'a list option" where
  "sequence_options [] = Some []"
| "sequence_options (None # xs) = None"
| "sequence_options (Some x # xs) = map_option ((#) x) (sequence_options xs)"

text \<open>
  The string that \<^verbatim>\<open>s += v\<close> appends. A plain object prints as \<^verbatim>\<open>[object Object]\<close>,
  unless it has an own property \<^verbatim>\<open>toString\<close>: that property, coming from JSON, is not
  callable, and the conversion throws a TypeError (\<open>None\<close>). An array joins its elements
  with commas, \<^verbatim>\<open>null\<close> and \<^verbatim>\<open>undefined\<close> elements printing as the empty string.
\<close>

fun ToString :: "'n js_env \<Rightarrow> 'n js_value \<Rightarrow> string option" where
  "ToString env Undefined = Some ''undefined''"
| "ToString env Null = Some ''null''"
| "ToString env (Bool b) = Some (if b then ''true'' else ''false'')"
| "ToString env (Num n) = Some (number_to_string env n)"
| "ToString env (Str s) = Some s"
| "ToString env (Obj kvs) =
     (if map_of kvs ''toString'' = None then Some ''[object Object]'' else None)"
| "ToString env (Arr xs) =
     map_option (join '','')
       (sequence_options
          (map (\<lambda>x. if x = Undefined \<or> x = Null then Some [] else ToString env x) xs))"

subsection \<open>String operations\<close>

definition newline :: char where
  "newline = CHR 0x0A"

text \<open>\<^verbatim>\<open>s.split('\n')\<close>: never empty; the last element is the text after the last newline.\<close>

fun split :: "string \<Rightarrow> string list" where
  "split [] = [[]]"
| "split (c # cs) =
     (if c = newline then [] # split cs
      else (case split cs of [] \<Rightarrow> [[c]] | l # ls \<Rightarrow> (c # l) # ls))"

text \<open>The white space and line terminators that \<^verbatim>\<open>trim\<close> removes, among the 256 code units.\<close>

definition whitespace :: "char \<Rightarrow> bool" where
  "whitespace c = (c \<in> {CHR 0x09, CHR 0x0A, CHR 0x0B, CHR 0x0C, CHR 0x0D, CHR 0x20, CHR 0xA0})"

definition trim :: "string \<Rightarrow> string" where
  "trim s = rev (dropWhile whitespace (rev (dropWhile whitespace s)))"

definition startsWith :: "string \<Rightarrow> string \<Rightarrow> bool" where
  "startsWith s p = (take (length p) s = p)"

text \<open>
  \<^verbatim>\<open>line.match(/^data: (.+)$/)\<close>: the line is \<^verbatim>\<open>data: \<close> followed by at least one
  character, none of them a line terminator (\<^verbatim>\<open>.\<close> does not match one, and \<^verbatim>\<open>$\<close> without
  the multiline flag is the end of the string). The result is the captured group.
\<close>

definition line_terminator :: "char \<Rightarrow> bool" where
  "line_terminator c = (c = CHR 0x0A \<or> c = CHR 0x0D)"

definition dataMatch :: "string \<Rightarrow> string option" where
  "dataMatch line =
     (if startsWith line ''data: '' \<and> drop 6 line \<noteq> [] \<and> \<not> list_ex line_terminator (drop 6 line)
      then Some (drop 6 line) else None)"

section \<open>Provider decoders\<close>

text \<open>
  The items a decoder pushes to \<^verbatim>\<open>processed\<close>, and the two further item types that
  the read loop of \<^verbatim>\<open>handleStream\<close> recognises: objects with a \<^verbatim>\<open>type\<close> tag and one
  payload field (\<^verbatim>\<open>content\<close>, \<^verbatim>\<open>data\<close> or \<^verbatim>\<open>reason\<close>).
\<close>

datatype 'n item =
    Token "'n js_value"
  | Thinking "'n js_value"
  | Tool_call "'n js_value"
  | Finish "'n js_value"
  | Error_item "'n js_value"

text \<open>
  The body of a \<^verbatim>\<open>try\<close> block that pushes items: the items pushed so far, and whether an
  exception has left the block. Items pushed before an exception stay in \<^verbatim>\<open>processed\<close>;
  the \<^verbatim>\<open>catch\<close> clause of every decoder only continues with the next line.
\<close>

type_synonym 'n run = "'n item list \<times> bool"

definition skip :: "'n run" where
  "skip = ([], False)"

definition throw :: "'n run" where
  "throw = ([], True)"

definition push :: "'n item \<Rightarrow> 'n run" where
  "push x = ([x], False)"

definition and_then :: "'n run \<Rightarrow> 'n run \<Rightarrow> 'n run" where
  "and_then a b = (if snd a then a else (fst a @ fst b, snd b))"

primrec for_lines :: "(string \<Rightarrow> 'n item list) \<Rightarrow> string list \<Rightarrow> 'n item list" where
  "for_lines body [] = []"
| "for_lines body (line # lines) = body line @ for_lines body lines"

text \<open>\<^verbatim>\<open>lines.pop() || ''\<close>\<close>

definition pop_or_empty :: "string list \<Rightarrow> string" where
  "pop_or_empty lines = (if lines = [] \<or> last lines = [] then [] else last lines)"

subsection \<open>Delta SSE: \<^verbatim>\<open>processOpenAIBuffer\<close>\<close>

fun openai_tool_calls :: "'n js_env \<Rightarrow> 'n js_value list \<Rightarrow> 'n run" where
  "openai_tool_calls env [] = skip"
| "openai_tool_calls env (toolCall # rest) =
     (case member toolCall ''function'' of
        None \<Rightarrow> throw
      | Some f \<Rightarrow>
          and_then
            (if truthy env f
             then push (Tool_call (Obj [(''id'', get toolCall ''id''),
                                        (''name'', get f ''name''),
                                        (''arguments'', get f ''arguments'')]))
             else skip)
            (openai_tool_calls env rest))"

definition openai_data :: "'n js_env \<Rightarrow> 'n js_value \<Rightarrow> 'n run" where
  "openai_data env data =
     (case member data ''choices'' of
        None \<Rightarrow> throw
      | Some choices \<Rightarrow>
          if truthy env choices \<and> truthy env (index0 choices) then
            (let choice = index0 choices; delta = get choice ''delta'' in
             and_then
               (if truthy env (get delta ''content'')
                then push (Token (get delta ''content'')) else skip)
            (and_then
               (if truthy env (get delta ''tool_calls'')
                then (case iterate (get delta ''tool_calls'') of
                        None \<Rightarrow> throw
                      | Some tool_calls \<Rightarrow> openai_tool_calls env tool_calls)
                else skip)
               (if truthy env (get choice ''finish_reason'')
                then push (Finish (get choice ''finish_reason'')) else skip)))
          else skip)"

definition openai_line :: "'n js_env \<Rightarrow> string \<Rightarrow> 'n item list" where
  "openai_line env line =
     (if trim line = [] \<or> trim line = ''data: [DONE]'' then []
      else if startsWith line ''data: '' then
        (case JSON_parse env (drop 6 line) of
           None \<Rightarrow> []
         | Some data \<Rightarrow> fst (openai_data env data))
      else [])"

definition processOpenAIBuffer :: "'n js_env \<Rightarrow> string \<Rightarrow> 'n item list \<times> string" where
  "processOpenAIBuffer env buffer =
     (let lines = split buffer
      in (for_lines (openai_line env) (butlast lines), pop_or_empty lines))"

subsection \<open>Typed SSE: \<^verbatim>\<open>processAnthropicBuffer\<close>\<close>

definition anthropic_data :: "'n js_env \<Rightarrow> 'n js_value \<Rightarrow> 'n run" where
  "anthropic_data env data =
     (case member data ''type'' of
        None \<Rightarrow> throw
      | Some ty \<Rightarrow>
          (let content_block = get data ''content_block'' in
           and_then
             (if ty = Str ''content_block_delta'' \<and> truthy env (get (get data ''delta'') ''text'')
              then push (Token (get (get data ''delta'') ''text'')) else skip)
          (and_then
             (if ty = Str ''content_block_start'' \<and> get content_block ''type'' = Str ''thinking''
              then skip else skip)
          (and_then
             (if ty = Str ''content_block_start'' \<and> get content_block ''type'' = Str ''tool_use''
              then push (Tool_call (Obj [(''id'', get content_block ''id''),
                                         (''name'', get content_block ''name''),
                                         (''input'', get content_block ''input'')]))
              else skip)
             (if ty = Str ''message_stop'' then push (Finish (Str ''stop'')) else skip)))))"

definition anthropic_line :: "'n js_env \<Rightarrow> string \<Rightarrow> 'n item list" where
  "anthropic_line env line =
     (if trim line = [] then []
      else if startsWith line ''event: '' \<or> startsWith line ''data: '' then
        (case dataMatch line of
           None \<Rightarrow> []
         | Some payload \<Rightarrow>
             (case JSON_parse env payload of
                None \<Rightarrow> []
              | Some data \<Rightarrow> fst (anthropic_data env data)))
      else [])"

definition processAnthropicBuffer :: "'n js_env \<Rightarrow> string \<Rightarrow> 'n item list \<times> string" where
  "processAnthropicBuffer env buffer =
     (let lines = split buffer
      in (for_lines (anthropic_line env) (butlast lines), pop_or_empty lines))"

subsection \<open>NDJSON: \<^verbatim>\<open>processGeminiBuffer\<close>\<close>

fun gemini_parts :: "'n js_env \<Rightarrow> 'n js_value list \<Rightarrow> 'n run" where
  "gemini_parts env [] = skip"
| "gemini_parts env (part # rest) =
     (case member part ''text'' of
        None \<Rightarrow> throw
      | Some text \<Rightarrow>
          (let functionCall = get part ''functionCall'' in
           and_then (if truthy env text then push (Token text) else skip)
          (and_then
             (if truthy env functionCall
              then push (Tool_call (Obj [(''name'', get functionCall ''name''),
                                         (''arguments'', get functionCall ''args'')]))
              else skip)
             (gemini_parts env rest))))"

definition gemini_data :: "'n js_env \<Rightarrow> 'n js_value \<Rightarrow> 'n run" where
  "gemini_data env data =
     (case member data ''candidates'' of
        None \<Rightarrow> throw
      | Some candidates \<Rightarrow>
          if truthy env candidates \<and> truthy env (index0 candidates) then
            (let candidate = index0 candidates; parts = get (get candidate ''content'') ''parts'' in
             and_then
               (if truthy env parts
                then (case iterate parts of
                        None \<Rightarrow> throw
                      | Some ps \<Rightarrow> gemini_parts env ps)
                else skip)
               (if truthy env (get candidate ''finishReason'')
                then push (Finish (get candidate ''finishReason'')) else skip))
          else skip)"

definition gemini_line :: "'n js_env \<Rightarrow> string \<Rightarrow> 'n item list" where
  "gemini_line env line =
     (if trim line = [] then []
      else (case JSON_parse env line of
              None \<Rightarrow> []
            | Some data \<Rightarrow> fst (gemini_data env data)))"

definition processGeminiBuffer :: "'n js_env \<Rightarrow> string \<Rightarrow> 'n item list \<times> string" where
  "processGeminiBuffer env buffer =
     (let lines = split buffer
      in (for_lines (gemini_line env) (butlast lines), pop_or_empty lines))"

subsection \<open>\<^verbatim>\<open>processBuffer\<close>\<close>

text \<open>
  The \<^verbatim>\<open>switch\<close> on the provider tag. The buffer is passed in and the new buffer is the
  second component of the result (the source keeps it in \<^verbatim>\<open>this.buffer\<close>).
\<close>

definition processBuffer :: "'n js_env \<Rightarrow> string \<Rightarrow> string \<Rightarrow> 'n item list \<times> string" where
  "processBuffer env provider buffer =
     (if provider = ''openai'' \<or> provider = ''deepseek'' then processOpenAIBuffer env buffer
      else if provider = ''anthropic'' then processAnthropicBuffer env buffer
      else if provider = ''gemini'' then processGeminiBuffer env buffer
      else processOpenAIBuffer env buffer)"

section \<open>Stream session: \<^verbatim>\<open>handleStream\<close>\<close>

text \<open>
  Modelled from the spec: \<^verbatim>\<open>ErrorManager.createStreamError\<close> and the class
  \<^verbatim>\<open>StreamError\<close> of \<^verbatim>\<open>errors/ErrorTypes.js\<close> are not among the source files. The error
  factory "constructs a stream-parse-failure carrying a machine-readable code and a details
  payload"; the code \<^verbatim>\<open>StreamError.codes.PARSE_FAILED\<close> is given by the README as
  \<^verbatim>\<open>STR_PARSE_FAILED\<close>.
\<close>

record 'n StreamError =
  message :: string
  code :: string
  details :: "(string \<times> 'n js_value) list"

definition PARSE_FAILED :: string where
  "PARSE_FAILED = ''STR_PARSE_FAILED''"

definition createStreamError ::
  "string \<Rightarrow> string \<Rightarrow> (string \<times> 'n js_value) list \<Rightarrow> 'n StreamError" where
  "createStreamError msg c d = \<lparr>message = msg, code = c, details = d\<rparr>"

text \<open>
  A thrown value is an instance of \<^verbatim>\<open>StreamError\<close> or any other JavaScript value (an
  \<^verbatim>\<open>Error\<close> object is an object with the properties \<^verbatim>\<open>message\<close> and \<^verbatim>\<open>stack\<close>).
\<close>

datatype 'n thrown =
    StreamError_instance "'n StreamError"
  | Other "'n js_value"

record 'n result =
  content :: string
  toolCalls :: "'n js_value list"
  thinkingContent :: string
  finishReason :: string

text \<open>
  What a callback returns: a value that is not a promise, or a promise (an \<^verbatim>\<open>async\<close>
  callback returns one), with the way it settles: it stays pending for as long as the
  invocation of \<^verbatim>\<open>handleStream\<close> lasts, or it is fulfilled or rejected at some time.
\<close>

datatype 'n settlement = Pending | Fulfilled "'n js_value" | Rejected "'n thrown"

datatype 'n returned = Plain "'n js_value" | Promise "'n settlement"

text \<open>
  A callback returns, returns after having called \<^verbatim>\<open>stopStream()\<close> on the handler, or
  throws. A callback is a closure with state of its own, so its behaviour may depend on the
  calls made before: it receives them as its first argument.
\<close>

datatype 'n outcome = Returns "'n returned" | Stops "'n returned" | Throws "'n thrown"

datatype 'n call =
    Call_onToken "'n js_value"
  | Call_onToolCall "'n js_value"
  | Call_onThinking "'n js_value"
  | Call_onComplete "'n result"
  | Call_onError "'n StreamError"

record 'n callbacks =
  onToken :: "'n call list \<Rightarrow> 'n js_value \<Rightarrow> 'n outcome"
  onToolCall :: "'n call list \<Rightarrow> 'n js_value \<Rightarrow> 'n outcome"
  onThinking :: "'n call list \<Rightarrow> 'n js_value \<Rightarrow> 'n outcome"
  onComplete :: "'n call list \<Rightarrow> 'n result \<Rightarrow> 'n outcome"
  onError :: "'n call list \<Rightarrow> 'n StreamError \<Rightarrow> 'n outcome"

text \<open>The defaults of \<^verbatim>\<open>callbacks = {}\<close>: every callback is \<^verbatim>\<open>() => {}\<close>.\<close>

definition no_callbacks :: "'n callbacks" where
  "no_callbacks =
     \<lparr>onToken = (\<lambda>h x. Returns (Plain Undefined)),
      onToolCall = (\<lambda>h x. Returns (Plain Undefined)),
      onThinking = (\<lambda>h x. Returns (Plain Undefined)),
      onComplete = (\<lambda>h x. Returns (Plain Undefined)),
      onError = (\<lambda>h x. Returns (Plain Undefined))\<rparr>"

text \<open>
  The transport. \<^verbatim>\<open>response.body.getReader()\<close> throws or gives a reader; the reader is the
  list of its settled reads, and after the last one it reports \<^verbatim>\<open>done\<close>. A read delivers
  a chunk, already decoded to text, or throws; the flag of a chunk says whether another task
  called \<^verbatim>\<open>stopStream()\<close> while the read was pending. A read that never settles is outside
  the model.
\<close>

datatype 'n read = Chunk string bool | Read_throws "'n thrown"

datatype 'n response = No_reader "'n thrown" | Reader "'n read list"

text \<open>
  The state of one invocation: the fields \<^verbatim>\<open>buffer\<close> and \<^verbatim>\<open>isStreaming\<close> of the handler,
  the three local accumulators, and the callback invocations made so far, in order.
\<close>

record 'n session =
  buffer :: string
  isStreaming :: bool
  fullContent :: string
  toolCallsAcc :: "'n js_value list"
  thinkingContentAcc :: string
  calls :: "'n call list"

text \<open>
  The statement \<^verbatim>\<open>cb(x);\<close> of the read loop: the invocation is recorded, and what the
  callback returns is dropped (the statement has no \<^verbatim>\<open>await\<close> and no assignment).
\<close>

definition after_call :: "'n outcome \<Rightarrow> 'n call \<Rightarrow> 'n session \<Rightarrow> 'n thrown option \<times> 'n session" where
  "after_call out c s =
     (let s' = s\<lparr>calls := calls s @ [c]\<rparr> in
      case out of
        Returns v \<Rightarrow> (None, s')
      | Stops v \<Rightarrow> (None, s'\<lparr>isStreaming := False\<rparr>)
      | Throws t \<Rightarrow> (Some t, s'))"

text \<open>One iteration of \<^verbatim>\<open>for (const item of processed)\<close>; \<open>Some t\<close> is a throw of \<open>t\<close>.\<close>

fun dispatch_item ::
  "'n js_env \<Rightarrow> 'n callbacks \<Rightarrow> 'n item \<Rightarrow> 'n session \<Rightarrow> 'n thrown option \<times> 'n session" where
  "dispatch_item env cbs (Token c) s =
     (case ToString env c of
        None \<Rightarrow> (Some (Other (TypeError env)), s)
      | Some text \<Rightarrow>
          (let s' = s\<lparr>fullContent := fullContent s @ text\<rparr>
           in after_call (onToken cbs (calls s') c) (Call_onToken c) s'))"
| "dispatch_item env cbs (Thinking c) s =
     (case ToString env c of
        None \<Rightarrow> (Some (Other (TypeError env)), s)
      | Some text \<Rightarrow>
          (let s' = s\<lparr>thinkingContentAcc := thinkingContentAcc s @ text\<rparr>;
               shown = formatThinkingContent env c
           in after_call (onThinking cbs (calls s') shown) (Call_onThinking shown) s'))"
| "dispatch_item env cbs (Tool_call d) s =
     (let s' = s\<lparr>toolCallsAcc := toolCallsAcc s @ [d]\<rparr>
      in after_call (onToolCall cbs (calls s') d) (Call_onToolCall d) s')"
| "dispatch_item env cbs (Error_item d) s =
     (Some (StreamError_instance
        (createStreamError ''Stream error received'' PARSE_FAILED [(''error'', d)])), s)"
| "dispatch_item env cbs (Finish r) s = (None, s)"

fun dispatch ::
  "'n js_env \<Rightarrow> 'n callbacks \<Rightarrow> 'n item list \<Rightarrow> 'n session \<Rightarrow> 'n thrown option \<times> 'n session" where
  "dispatch env cbs [] s = (None, s)"
| "dispatch env cbs (item # items) s =
     (case dispatch_item env cbs item s of
        (Some t, s') \<Rightarrow> (Some t, s')
      | (None, s') \<Rightarrow> dispatch env cbs items s')"

text \<open>\<^verbatim>\<open>while (this.isStreaming) { ... }\<close>\<close>

fun read_loop ::
  "'n js_env \<Rightarrow> 'n callbacks \<Rightarrow> string \<Rightarrow> 'n read list \<Rightarrow> 'n session
     \<Rightarrow> 'n thrown option \<times> 'n session" where
  "read_loop env cbs provider reads s =
     (if \<not> isStreaming s then (None, s)
      else case reads of
        [] \<Rightarrow> (None, s)
      | Read_throws t # rest \<Rightarrow> (Some t, s)
      | Chunk chunk stop # rest \<Rightarrow>
          (let s1 = s\<lparr>isStreaming := \<not> stop, buffer := buffer s @ chunk\<rparr>;
               (processed, remainder) = processBuffer env provider (buffer s1);
               s2 = s1\<lparr>buffer := remainder\<rparr>
           in case dispatch env cbs processed s2 of
                (Some t, s3) \<Rightarrow> (Some t, s3)
              | (None, s3) \<Rightarrow> read_loop env cbs provider rest s3))"

definition start_session :: "'n session" where
  "start_session =
     \<lparr>buffer = [], isStreaming = True, fullContent = [], toolCallsAcc = [],
      thinkingContentAcc = [], calls = []\<rparr>"

text \<open>The \<^verbatim>\<open>try\<close> block: \<open>Inl t\<close> is a throw of \<open>t\<close>, \<open>Inr r\<close> is \<^verbatim>\<open>return result\<close>.\<close>

definition try_block ::
  "'n js_env \<Rightarrow> 'n callbacks \<Rightarrow> string \<Rightarrow> 'n response \<Rightarrow> ('n thrown + 'n result) \<times> 'n session" where
  "try_block env cbs provider response =
     (case response of
        No_reader t \<Rightarrow> (Inl t, start_session)
      | Reader reads \<Rightarrow>
          (case read_loop env cbs provider reads start_session of
             (Some t, s) \<Rightarrow> (Inl t, s)
           | (None, s) \<Rightarrow>
               (let result = \<lparr>content = fullContent s, toolCalls = toolCallsAcc s,
                              thinkingContent = thinkingContentAcc s, finishReason = ''stop''\<rparr>
                in case after_call (onComplete cbs (calls s) result) (Call_onComplete result) s of
                     (Some t, s') \<Rightarrow> (Inl t, s')
                   | (None, s') \<Rightarrow> (Inr result, s'))))"

text \<open>The \<^verbatim>\<open>catch (error)\<close> clause; the result is the value it throws.\<close>

definition report :: "'n callbacks \<Rightarrow> 'n StreamError \<Rightarrow> 'n session \<Rightarrow> 'n thrown \<times> 'n session" where
  "report cbs e s =
     (case after_call (onError cbs (calls s) e) (Call_onError e) s of
        (Some t, s') \<Rightarrow> (t, s')
      | (None, s') \<Rightarrow> (StreamError_instance e, s'))"

definition catch_clause ::
  "'n js_env \<Rightarrow> 'n callbacks \<Rightarrow> 'n thrown \<Rightarrow> 'n session \<Rightarrow> 'n thrown \<times> 'n session" where
  "catch_clause env cbs error s =
     (let s1 = s\<lparr>isStreaming := False\<rparr> in
      case error of
        StreamError_instance e \<Rightarrow> report cbs e s1
      | Other v \<Rightarrow>
          (case member v ''message'' of
             None \<Rightarrow> (Other (TypeError env), s1)
           | Some m \<Rightarrow>
               report cbs
                 (createStreamError ''Stream processing failed'' PARSE_FAILED
                    [(''originalError'', m), (''stack'', get v ''stack'')])
                 s1))"

text \<open>
  \<^verbatim>\<open>handleStream(response, callbacks, provider)\<close>: how the returned promise settles
  (\<open>Inl\<close> rejected, \<open>Inr\<close> fulfilled) and the state the \<^verbatim>\<open>finally\<close> clause leaves. The state
  of the handler before the call is not an argument: the first two statements overwrite it.
\<close>

definition handleStream ::
  "'n js_env \<Rightarrow> 'n callbacks \<Rightarrow> string \<Rightarrow> 'n response \<Rightarrow> ('n thrown + 'n result) \<times> 'n session" where
  "handleStream env cbs provider response =
     (let (settled, s) =
            (case try_block env cbs provider response of
               (Inl error, s) \<Rightarrow> (let (t, s') = catch_clause env cbs error s in (Inl t, s'))
             | (Inr r, s) \<Rightarrow> (Inr r, s))
      in (settled, s\<lparr>isStreaming := False, buffer := []\<rparr>))"

section \<open>Tool-call dispatch: \<^verbatim>\<open>Agentify.js\<close>\<close>

text \<open>
  Modelled from the spec: the tool registry (\<^verbatim>\<open>tools/ToolManager.js\<close>) is not among the
  source files. Its interface is "\<^verbatim>\<open>hasTool(name) -> bool\<close>,
  \<^verbatim>\<open>executeTool(name, argsOrString) -> Promise<{result}>\<close>, failing with a tool-execution
  error"; both are parameters here, and awaiting the promise is a call that returns the
  settled value (\<open>Inl\<close> rejected, \<open>Inr\<close> fulfilled).
\<close>

record 'n registry =
  hasTool :: "'n js_value \<Rightarrow> bool"
  executeTool :: "'n js_value \<Rightarrow> 'n js_value \<Rightarrow> 'n thrown + 'n js_value"

text \<open>
  Modelled from the spec: \<^verbatim>\<open>adapter.parseResponse\<close> (the provider adapters are not among
  the source files) returns an object with \<^verbatim>\<open>content\<close>, \<^verbatim>\<open>toolCalls\<close> (an array, or absent:
  \<open>None\<close>) and \<^verbatim>\<open>finishReason\<close>.
\<close>

record 'n parsed =
  parsed_content :: "'n js_value"
  parsed_toolCalls :: "'n js_value list option"
  parsed_finishReason :: "'n js_value"

text \<open>
  The caller's \<^verbatim>\<open>options\<close>: a callback is absent (\<open>None\<close>) or a function that returns
  (\<open>None\<close>) or throws (\<open>Some t\<close>).
\<close>

record 'n options =
  options_onToolCall :: "('n js_value \<Rightarrow> 'n thrown option) option"
  options_onComplete :: "('n parsed \<Rightarrow> 'n thrown option) option"

text \<open>
  What the orchestration layer does to its collaborators (thinking tracker, event log, task
  store, conversation history, console, the caller's callbacks), in order. Durations and
  time stamps are left out.
\<close>

datatype 'n effect =
    SetAction string
  | LogApiResponse
  | PushAssistantMessage "'n js_value"
  | LogAssistantMessageCompleted "'n js_value" "'n js_value"
  | LogToolCallInitiated "'n js_value" "'n js_value"
  | Options_onToolCall "'n js_value"
  | LogToolCallCompleted "'n js_value" "'n js_value" "'n js_value"
  | LogToolCallFailed "'n js_value" "'n js_value" "'n thrown"
  | ConsoleError "'n thrown"
  | UpdateTaskStatus string "'n js_value"
  | StopThinking
  | Options_onComplete "'n parsed"

text \<open>\<^verbatim>\<open>if (options.cb) { options.cb(x); }\<close>: the exception thrown, if any, and the effect.\<close>

definition call_option ::
  "('a \<Rightarrow> 'n thrown option) option \<Rightarrow> 'a \<Rightarrow> 'n effect \<Rightarrow> 'n thrown option \<times> 'n effect list" where
  "call_option cb x e = (case cb of None \<Rightarrow> (None, []) | Some f \<Rightarrow> (f x, [e]))"

text \<open>
  The \<^verbatim>\<open>try\<close>/\<^verbatim>\<open>catch\<close> around \<^verbatim>\<open>executeTool\<close>, the same in both paths up to what the
  \<^verbatim>\<open>catch\<close> clause does last: the settled value of the \<^verbatim>\<open>try\<close> statement before that
  (\<open>Inl error\<close>: the \<^verbatim>\<open>catch\<close> clause ran with \<open>error\<close>), and the effects.
\<close>

definition execute_and_log ::
  "'n js_env \<Rightarrow> 'n registry \<Rightarrow> 'n js_value \<Rightarrow> 'n js_value
     \<Rightarrow> ('n thrown + 'n js_value) \<times> 'n effect list" where
  "execute_and_log env reg name args =
     (let caught = (\<lambda>error. (Inl error, [LogToolCallFailed name args error, ConsoleError error])) in
      case executeTool reg name args of
        Inl error \<Rightarrow> caught error
      | Inr result \<Rightarrow>
          (case member result ''result'' of
             None \<Rightarrow> caught (Other (TypeError env))
           | Some r \<Rightarrow> (Inr result, [LogToolCallCompleted name args r])))"

text \<open>
  The \<^verbatim>\<open>onToolCall\<close> closure that \<^verbatim>\<open>handleStreamingResponse\<close> passes to \<^verbatim>\<open>handleStream\<close>:
  an \<^verbatim>\<open>async\<close> function, so the result is how its promise settles.
\<close>

definition streaming_onToolCall ::
  "'n js_env \<Rightarrow> 'n registry \<Rightarrow> 'n options \<Rightarrow> 'n js_value
     \<Rightarrow> ('n thrown + 'n js_value) \<times> 'n effect list" where
  "streaming_onToolCall env reg opts toolCall =
     (case member toolCall ''name'' of
        None \<Rightarrow> (Inl (Other (TypeError env)), [])
      | Some name \<Rightarrow>
          (case ToString env name of
             None \<Rightarrow> (Inl (Other (TypeError env)), [])
           | Some shown \<Rightarrow>
               (let args = get toolCall ''arguments'';
                    fx = [SetAction (''Executing tool: '' @ shown), LogToolCallInitiated name args]
                in case call_option (options_onToolCall opts) toolCall (Options_onToolCall toolCall) of
                     (Some t, fx1) \<Rightarrow> (Inl t, fx @ fx1)
                   | (None, fx1) \<Rightarrow>
                       if hasTool reg name then
                         (case execute_and_log env reg name args of
                            (Inl error, fx2) \<Rightarrow> (Inl error, fx @ fx1 @ fx2)
                          | (Inr result, fx2) \<Rightarrow> (Inr result, fx @ fx1 @ fx2))
                       else (Inr Undefined, fx @ fx1))))"

text \<open>
  \<^verbatim>\<open>for (const toolCall of result.toolCalls)\<close> in \<^verbatim>\<open>handleNonStreamingResponse\<close>: the
  exception that leaves the loop, if any, and the effects.
\<close>

fun tool_calls_loop ::
  "'n js_env \<Rightarrow> 'n registry \<Rightarrow> 'n options \<Rightarrow> 'n js_value list
     \<Rightarrow> 'n thrown option \<times> 'n effect list" where
  "tool_calls_loop env reg opts [] = (None, [])"
| "tool_calls_loop env reg opts (toolCall # rest) =
     (case member toolCall ''name'' of
        None \<Rightarrow> (Some (Other (TypeError env)), [])
      | Some name \<Rightarrow>
          (let args = get toolCall ''arguments'';
               fx = [LogToolCallInitiated name args]
           in case call_option (options_onToolCall opts) toolCall (Options_onToolCall toolCall) of
                (Some t, fx1) \<Rightarrow> (Some t, fx @ fx1)
              | (None, fx1) \<Rightarrow>
                  (let fx2 = (if hasTool reg name then snd (execute_and_log env reg name args) else []);
                       (t, fx3) = tool_calls_loop env reg opts rest
                   in (t, fx @ fx1 @ fx2 @ fx3))))"

text \<open>
  \<^verbatim>\<open>handleNonStreamingResponse\<close>. The settled value of \<^verbatim>\<open>response.json()\<close> and the
  adapter's \<^verbatim>\<open>parseResponse\<close> are arguments.
\<close>

definition handleNonStreamingResponse ::
  "'n js_env \<Rightarrow> 'n registry \<Rightarrow> 'n options \<Rightarrow> ('n thrown + 'n js_value)
     \<Rightarrow> ('n js_value \<Rightarrow> 'n thrown + 'n parsed) \<Rightarrow> ('n thrown + 'n parsed) \<times> 'n effect list" where
  "handleNonStreamingResponse env reg opts response_json parseResponse =
     (let fx0 = [SetAction ''Parsing response''] in
      case response_json of
        Inl t \<Rightarrow> (Inl t, fx0)
      | Inr data \<Rightarrow>
          (case parseResponse data of
             Inl t \<Rightarrow> (Inl t, fx0)
           | Inr result \<Rightarrow>
               (let fx1 = fx0 @ [LogApiResponse]
                      @ (if truthy env (parsed_content result)
                         then [PushAssistantMessage (parsed_content result)] else [])
                      @ [LogAssistantMessageCompleted (parsed_content result) (parsed_finishReason result)];
                    (t, fx2) =
                      (case parsed_toolCalls result of
                         None \<Rightarrow> (None, [])
                       | Some tcs \<Rightarrow>
                           if tcs = [] then (None, [])
                           else (let (t, fx) = tool_calls_loop env reg opts tcs
                                 in (t, SetAction ''Processing tool calls'' # fx)))
                in case t of
                     Some e \<Rightarrow> (Inl e, fx1 @ fx2)
                   | None \<Rightarrow>
                       (let fx3 = fx1 @ fx2
                              @ [UpdateTaskStatus ''completed'' (parsed_content result), StopThinking]
                        in case call_option (options_onComplete opts) result (Options_onComplete result) of
                             (Some e, fx4) \<Rightarrow> (Inl e, fx3 @ fx4)
                           | (None, fx4) \<Rightarrow> (Inr result, fx3 @ fx4)))))"

section \<open>Properties, stated on the model\<close>

text \<open>The item types a decoder may produce.\<close>

fun decoded :: "'n item \<Rightarrow> bool" where
  "decoded (Token c) = True"
| "decoded (Tool_call d) = True"
| "decoded (Finish r) = True"
| "decoded (Thinking c) = False"
| "decoded (Error_item d) = False"

text \<open>
  The delta-SSE pass as the specification words it. A line that is blank or the sentinel
  is dropped; a line prefixed \<^verbatim>\<open>data: \<close> is parsed after stripping the prefix; from the
  parsed value, a non-empty \<^verbatim>\<open>choices[0].delta.content\<close> yields one token, each entry of
  \<^verbatim>\<open>choices[0].delta.tool_calls\<close> with a function payload yields one tool call, and a
  \<^verbatim>\<open>choices[0].finish_reason\<close> yields one finish item.
\<close>

definition entries :: "'n js_value \<Rightarrow> 'n js_value list" where
  "entries v = (case iterate v of None \<Rightarrow> [] | Some xs \<Rightarrow> xs)"

definition spec_delta_sse_events :: "'n js_env \<Rightarrow> 'n js_value \<Rightarrow> 'n item list" where
  "spec_delta_sse_events env data =
     (let choice = index0 (get data ''choices''); delta = get choice ''delta'' in
      (if truthy env (get delta ''content'') then [Token (get delta ''content'')] else [])
      @ map (\<lambda>entry. Tool_call (Obj [(''id'', get entry ''id''),
                                       (''name'', get (get entry ''function'') ''name''),
                                       (''arguments'', get (get entry ''function'') ''arguments'')]))
          (filter (\<lambda>entry. truthy env (get entry ''function'')) (entries (get delta ''tool_calls'')))
      @ (if truthy env (get choice ''finish_reason'') then [Finish (get choice ''finish_reason'')] else []))"

definition spec_delta_sse_line :: "'n js_env \<Rightarrow> string \<Rightarrow> 'n item list" where
  "spec_delta_sse_line env line =
     (if trim line = [] \<or> trim line = ''data: [DONE]'' then []
      else if startsWith line ''data: '' then
        (case JSON_parse env (drop 6 line) of
           None \<Rightarrow> []
         | Some data \<Rightarrow> spec_delta_sse_events env data)
      else [])"

definition spec_delta_sse :: "'n js_env \<Rightarrow> string \<Rightarrow> 'n item list \<times> string" where
  "spec_delta_sse env text =
     (concat (map (spec_delta_sse_line env) (butlast (split text))), last (split text))"

text \<open>
  The payload's \<^verbatim>\<open>choices[0].delta.tool_calls\<close>, when present, can be iterated and has no
  \<^verbatim>\<open>null\<close> entry: the loop over it does not throw.
\<close>

definition tool_calls_iterable :: "'n js_env \<Rightarrow> 'n js_value \<Rightarrow> bool" where
  "tool_calls_iterable env data =
     (let tool_calls = get (get (index0 (get data ''choices'')) ''delta'') ''tool_calls'' in
      if truthy env tool_calls
      then (case iterate tool_calls of
              None \<Rightarrow> False
            | Some xs \<Rightarrow> list_all (\<lambda>x. member x ''function'' \<noteq> None) xs)
      else True)"

text \<open>The value a line is parsed to, for the lines that the delta-SSE pass parses.\<close>

definition parsed_data :: "'n js_env \<Rightarrow> string \<Rightarrow> 'n js_value option" where
  "parsed_data env line =
     (if trim line = [] \<or> trim line = ''data: [DONE]'' then None
      else if startsWith line ''data: '' then JSON_parse env (drop 6 line)
      else None)"

definition line_iterable :: "'n js_env \<Rightarrow> string \<Rightarrow> bool" where
  "line_iterable env line =
     (case parsed_data env line of None \<Rightarrow> True | Some data \<Rightarrow> tool_calls_iterable env data)"

text \<open>
  What a payload yields when the loop over \<^verbatim>\<open>tool_calls\<close> throws: the token of a
  non-empty content, then one tool call for each entry with a function payload that comes
  before the first \<^verbatim>\<open>null\<close> entry (none when \<^verbatim>\<open>tool_calls\<close> cannot be iterated), and no
  finish item.
\<close>

definition spec_truncated_events :: "'n js_env \<Rightarrow> 'n js_value \<Rightarrow> 'n item list" where
  "spec_truncated_events env data =
     (let choice = index0 (get data ''choices''); delta = get choice ''delta'' in
      (if truthy env (get delta ''content'') then [Token (get delta ''content'')] else [])
      @ map (\<lambda>entry. Tool_call (Obj [(''id'', get entry ''id''),
                                       (''name'', get (get entry ''function'') ''name''),
                                       (''arguments'', get (get entry ''function'') ''arguments'')]))
          (filter (\<lambda>entry. truthy env (get entry ''function''))
             (takeWhile (\<lambda>entry. member entry ''function'' \<noteq> None)
                (entries (get delta ''tool_calls'')))))"

definition spec_truncated_line :: "'n js_env \<Rightarrow> string \<Rightarrow> 'n item list" where
  "spec_truncated_line env line =
     (case parsed_data env line of None \<Rightarrow> [] | Some data \<Rightarrow> spec_truncated_events env data)"

text \<open>
  The items of one complete line: those of the description when the line's \<^verbatim>\<open>tool_calls\<close>
  can be iterated, the truncated ones otherwise.
\<close>

definition described_line :: "'n js_env \<Rightarrow> string \<Rightarrow> 'n item list" where
  "described_line env line =
     (if line_iterable env line then spec_delta_sse_line env line else spec_truncated_line env line)"

text \<open>The stream failure that the \<^verbatim>\<open>catch\<close> clause of \<^verbatim>\<open>handleStream\<close> reports for a thrown value.\<close>

definition wrapped :: "'n thrown \<Rightarrow> 'n StreamError" where
  "wrapped t =
     (case t of
        StreamError_instance e \<Rightarrow> e
      | Other v \<Rightarrow>
          createStreamError ''Stream processing failed'' PARSE_FAILED
            [(''originalError'', get v ''message''), (''stack'', get v ''stack'')])"

definition nullish_thrown :: "'n thrown \<Rightarrow> bool" where
  "nullish_thrown t = (t = Other Undefined \<or> t = Other Null)"

fun is_onError :: "'n call \<Rightarrow> bool" where
  "is_onError (Call_onError e) = True"
| "is_onError c = False"

fun is_onThinking :: "'n call \<Rightarrow> bool" where
  "is_onThinking (Call_onThinking x) = True"
| "is_onThinking c = False"

text \<open>No callback of the read loop ever calls \<^verbatim>\<open>stopStream()\<close>.\<close>

fun stops :: "'n outcome \<Rightarrow> bool" where
  "stops (Stops v) = True"
| "stops out = False"

definition never_stops :: "'n callbacks \<Rightarrow> bool" where
  "never_stops cbs =
     (\<forall>h x. \<not> stops (onToken cbs h x) \<and> \<not> stops (onToolCall cbs h x)
            \<and> \<not> stops (onThinking cbs h x))"

fun is_initiated :: "'n effect \<Rightarrow> bool" where
  "is_initiated (LogToolCallInitiated name args) = True"
| "is_initiated e = False"

text \<open>The three decoders share their treatment of the buffer; only the line body differs.\<close>

definition decode_lines :: "(string \<Rightarrow> 'n item list) \<Rightarrow> string \<Rightarrow> 'n item list \<times> string" where
  "decode_lines body text = (for_lines body (butlast (split text)), pop_or_empty (split text))"

definition line_body :: "'n js_env \<Rightarrow> string \<Rightarrow> string \<Rightarrow> 'n item list" where
  "line_body env provider =
     (if provider = ''openai'' \<or> provider = ''deepseek'' then openai_line env
      else if provider = ''anthropic'' then anthropic_line env
      else if provider = ''gemini'' then gemini_line env
      else openai_line env)"

text \<open>Every item pushed by a \<^verbatim>\<open>try\<close> body is of a type a decoder may produce.\<close>

definition all_decoded :: "'n run \<Rightarrow> bool" where
  "all_decoded r = list_all decoded (fst r)"

text \<open>No thinking text has been accumulated and \<^verbatim>\<open>onThinking\<close> has not been invoked.\<close>

definition quiet :: "'n session \<Rightarrow> bool" where
  "quiet s = (thinkingContentAcc s = [] \<and> \<not> list_ex is_onThinking (calls s))"

text \<open>\<^verbatim>\<open>onError\<close> has not been invoked.\<close>

definition unreported :: "'n session \<Rightarrow> bool" where
  "unreported s = (filter is_onError (calls s) = [])"

fun returns_normally :: "'n outcome \<Rightarrow> bool" where
  "returns_normally (Throws t) = False"
| "returns_normally out = True"

text \<open>The same session at another position of the stream.\<close>

definition reposition :: "bool \<Rightarrow> string \<Rightarrow> 'n session \<Rightarrow> 'n session" where
  "reposition c b s = s\<lparr>isStreaming := c, buffer := b\<rparr>"

text \<open>
  A tool call that the orchestration layer can dispatch without an exception of its own:
  it is not \<^verbatim>\<open>null\<close> or \<^verbatim>\<open>undefined\<close>, and the caller's \<^verbatim>\<open>onToolCall\<close>, if any, returns.
\<close>

definition callback_returns :: "'n options \<Rightarrow> 'n js_value \<Rightarrow> bool" where
  "callback_returns opts toolCall =
     (fst (call_option (options_onToolCall opts) toolCall (Options_onToolCall toolCall)) = None)"

definition dispatchable :: "'n options \<Rightarrow> 'n js_value \<Rightarrow> bool" where
  "dispatchable opts toolCall = (member toolCall ''name'' \<noteq> None \<and> callback_returns opts toolCall)"

text \<open>
  The exception, if any, with which a recorded invocation of a callback of the \<^verbatim>\<open>try\<close>
  block ends, given the calls made before it; and these for a whole list of invocations.
\<close>

fun throw_of :: "'n outcome \<Rightarrow> 'n thrown option" where
  "throw_of (Throws t) = Some t"
| "throw_of out = None"

fun thrown_by :: "'n callbacks \<Rightarrow> 'n call list \<Rightarrow> 'n call \<Rightarrow> 'n thrown option" where
  "thrown_by cbs h (Call_onToken x) = throw_of (onToken cbs h x)"
| "thrown_by cbs h (Call_onToolCall x) = throw_of (onToolCall cbs h x)"
| "thrown_by cbs h (Call_onThinking x) = throw_of (onThinking cbs h x)"
| "thrown_by cbs h (Call_onComplete r) = throw_of (onComplete cbs h r)"
| "thrown_by cbs h (Call_onError e) = None"

fun outcomes :: "'n callbacks \<Rightarrow> 'n call list \<Rightarrow> 'n call list \<Rightarrow> 'n thrown option list" where
  "outcomes cbs h [] = []"
| "outcomes cbs h (c # cs) = thrown_by cbs h c # outcomes cbs (h @ [c]) cs"

text \<open>
  A read that the loop performs throws \<open>t\<close>: the reads before it have been delivered
  without an exception and without a stop.
\<close>

definition read_raises :: "'n js_env \<Rightarrow> 'n callbacks \<Rightarrow> string \<Rightarrow> 'n read list \<Rightarrow> 'n thrown \<Rightarrow> bool" where
  "read_raises env cbs provider reads t =
     list_ex (\<lambda>i. reads ! i = Read_throws t \<and>
                   (case read_loop env cbs provider (take i reads) start_session of
                      (None, s) \<Rightarrow> isStreaming s
                    | (Some e, s) \<Rightarrow> False))
       [0..<length reads]"

text \<open>
  An exception \<open>t\<close> is raised during the invocation by the transport (\<^verbatim>\<open>getReader\<close> or a
  read that the loop performs) or by an invoked callback of the \<^verbatim>\<open>try\<close> block
  (\<^verbatim>\<open>onToken\<close>, \<^verbatim>\<open>onToolCall\<close>, \<^verbatim>\<open>onThinking\<close>, \<^verbatim>\<open>onComplete\<close>).
\<close>

definition raised :: "'n js_env \<Rightarrow> 'n callbacks \<Rightarrow> string \<Rightarrow> 'n response \<Rightarrow> 'n thrown \<Rightarrow> bool" where
  "raised env cbs provider response t =
     ((case response of
         No_reader e \<Rightarrow> e = t
       | Reader reads \<Rightarrow> read_raises env cbs provider reads t)
      \<or> Some t \<in> set (outcomes cbs [] (calls (snd (handleStream env cbs provider response)))))"

text \<open>If a recorded invocation threw, the loop has stopped with that exception.\<close>

definition untouched :: "'n callbacks \<Rightarrow> 'n thrown option \<Rightarrow> 'n session \<Rightarrow> bool" where
  "untouched cbs r s = (\<forall>t. Some t \<in> set (outcomes cbs [] (calls s)) \<longrightarrow> r = Some t)"

text \<open>
  The same callbacks, except that every promise returned by \<^verbatim>\<open>onToolCall\<close> settles as
  \<open>f\<close> says: the tool behind it succeeds, fails or stays pending.
\<close>

fun with_settlement :: "'n settlement \<Rightarrow> 'n outcome \<Rightarrow> 'n outcome" where
  "with_settlement p (Returns (Promise q)) = Returns (Promise p)"
| "with_settlement p (Stops (Promise q)) = Stops (Promise p)"
| "with_settlement p out = out"

definition resettle ::
  "('n call list \<Rightarrow> 'n js_value \<Rightarrow> 'n settlement) \<Rightarrow> 'n callbacks \<Rightarrow> 'n callbacks" where
  "resettle f cbs = cbs\<lparr>onToolCall := (\<lambda>h d. with_settlement (f h d) (onToolCall cbs h d))\<rparr>"

subsection \<open>A sample environment\<close>

text \<open>
  For the closed examples: numbers are their decimal text, and \<open>sample_parse\<close> agrees
  with \<^verbatim>\<open>JSON.parse\<close> on the texts below; the only other text that the examples apply
  it to is \<^verbatim>\<open>{"choices":\<close>, on which \<^verbatim>\<open>JSON.parse\<close> throws as well.
\<close>

definition openai_hi :: string where
  "openai_hi = ''{\"choices\":[{\"delta\":{\"content\":\"Hi\"}}]}''"

definition openai_length :: string where
  "openai_length = ''{\"choices\":[{\"delta\":{\"content\":\"lo\"},\"finish_reason\":\"length\"}]}''"

definition openai_tool :: string where
  "openai_tool = ''{\"choices\":[{\"delta\":{\"tool_calls\":[{\"id\":\"call_1\",\"function\":{\"name\":\"get_weather\",\"arguments\":\"{\"}}]},\"finish_reason\":\"tool_calls\"}]}''"

definition openai_tool_only :: string where
  "openai_tool_only = ''{\"choices\":[{\"delta\":{\"tool_calls\":[{\"id\":\"call_1\",\"function\":{\"name\":\"get_weather\",\"arguments\":\"{\"}}]}}]}''"

definition openai_null_entry :: string where
  "openai_null_entry = ''{\"choices\":[{\"delta\":{\"tool_calls\":[null,{\"id\":\"call_1\",\"function\":{\"name\":\"get_weather\",\"arguments\":\"{}\"}}]},\"finish_reason\":\"tool_calls\"}]}''"

definition openai_object_tool_calls :: string where
  "openai_object_tool_calls = ''{\"choices\":[{\"delta\":{\"content\":\"Hi\",\"tool_calls\":{}},\"finish_reason\":\"stop\"}]}''"

definition anthropic_tool_use :: string where
  "anthropic_tool_use = ''{\"type\":\"content_block_start\",\"content_block\":{\"type\":\"tool_use\",\"id\":\"toolu_1\",\"name\":\"get_weather\",\"input\":{}}}''"

definition get_weather_call :: "string js_value" where
  "get_weather_call = Obj [(''id'', Str ''call_1''),
                           (''function'', Obj [(''name'', Str ''get_weather''), (''arguments'', Str ''{}'')])]"

definition sample_parse :: "string \<Rightarrow> string js_value option" where
  "sample_parse text =
     (if text = openai_hi then
        Some (Obj [(''choices'', Arr [Obj [(''delta'', Obj [(''content'', Str ''Hi'')])]])])
      else if text = openai_length then
        Some (Obj [(''choices'', Arr [Obj [(''delta'', Obj [(''content'', Str ''lo'')]),
                                           (''finish_reason'', Str ''length'')]])])
      else if text = openai_tool then
        Some (Obj [(''choices'', Arr [Obj [(''delta'', Obj [(''tool_calls'',
                 Arr [Obj [(''id'', Str ''call_1''),
                           (''function'', Obj [(''name'', Str ''get_weather''), (''arguments'', Str ''{'')])]])]),
               (''finish_reason'', Str ''tool_calls'')]])])
      else if text = openai_tool_only then
        Some (Obj [(''choices'', Arr [Obj [(''delta'', Obj [(''tool_calls'',
                 Arr [Obj [(''id'', Str ''call_1''),
                           (''function'', Obj [(''name'', Str ''get_weather''), (''arguments'', Str ''{'')])]])])]])])
      else if text = openai_null_entry then
        Some (Obj [(''choices'', Arr [Obj [(''delta'', Obj [(''tool_calls'', Arr [Null, get_weather_call])]),
                                           (''finish_reason'', Str ''tool_calls'')]])])
      else if text = openai_object_tool_calls then
        Some (Obj [(''choices'', Arr [Obj [(''delta'', Obj [(''content'', Str ''Hi''), (''tool_calls'', Obj [])]),
                                           (''finish_reason'', Str ''stop'')]])])
      else if text = anthropic_tool_use then
        Some (Obj [(''type'', Str ''content_block_start''),
                   (''content_block'', Obj [(''type'', Str ''tool_use''), (''id'', Str ''toolu_1''),
                                            (''name'', Str ''get_weather''), (''input'', Obj [])])])
      else None)"

definition sample_env :: "string js_env" where
  "sample_env =
     \<lparr>JSON_parse = sample_parse,
      number_falsy = (\<lambda>n. n = ''0'' \<or> n = ''-0''),
      number_to_string = (\<lambda>n. n),
      TypeError = Obj [(''name'', Str ''TypeError''), (''message'', Str ''type error''), (''stack'', Str [])],
      formatThinkingContent = (\<lambda>v. v)\<rparr>"

definition two_lines :: string where
  "two_lines = ''data: '' @ openai_hi @ [newline] @ ''data: '' @ openai_length @ [newline]"

definition mixed_lines :: string where
  "mixed_lines =
     ''data: '' @ openai_hi @ [newline] @ ''data: '' @ openai_null_entry @ [newline, newline]
       @ ''data: '' @ openai_object_tool_calls @ [newline] @ ''data: '' @ openai_tool @ [newline]
       @ ''data: [DONE]'' @ [newline] @ ''data: {''"

definition pending_tool :: "string callbacks" where
  "pending_tool = no_callbacks\<lparr>onToolCall := (\<lambda>h d. Returns (Promise Pending))\<rparr>"

definition weather_fragment :: "string js_value" where
  "weather_fragment = Obj [(''id'', Str ''call_1''), (''name'', Str ''get_weather''), (''arguments'', Str ''{'')]"

definition network_down :: "string js_value" where
  "network_down = Obj [(''message'', Str ''network down''), (''stack'', Str ''at read'')]"

definition bad_callback :: "string js_value" where
  "bad_callback = Obj [(''message'', Str ''bad callback''), (''stack'', Str ''at onToken'')]"

definition throwing_onToken :: "string callbacks" where
  "throwing_onToken = no_callbacks\<lparr>onToken := (\<lambda>h x. Throws (Other bad_callback))\<rparr>"

definition throwing_null :: "string callbacks" where
  "throwing_null = no_callbacks\<lparr>onToken := (\<lambda>h x. Throws (Other Null))\<rparr>"

definition throwing_onError :: "string callbacks" where
  "throwing_onError = no_callbacks\<lparr>onError := (\<lambda>h e. Throws (Other (Str ''boom'')))\<rparr>"

definition tool_failed :: "string thrown" where
  "tool_failed = Other (Obj [(''message'', Str ''Tool execution failed''), (''toolName'', Str ''get_weather'')])"

definition failing_registry :: "string registry" where
  "failing_registry =
     \<lparr>hasTool = (\<lambda>name. name = Str ''get_weather''), executeTool = (\<lambda>name args. Inl tool_failed)\<rparr>"

definition echo_registry :: "string registry" where
  "echo_registry =
     \<lparr>hasTool = (\<lambda>name. name = Str ''get_weather''),
      executeTool = (\<lambda>name args. Inr (Obj [(''result'', args)]))\<rparr>"

definition no_options :: "string options" where
  "no_options = \<lparr>options_onToolCall = None, options_onComplete = None\<rparr>"

definition weather_call :: "string js_value" where
  "weather_call = Obj [(''id'', Str ''call_1''), (''name'', Str ''get_weather''), (''arguments'', Str ''{}'')]"

definition time_call :: "string js_value" where
  "time_call = Obj [(''id'', Str ''call_2''), (''name'', Str ''get_time''), (''arguments'', Str ''{}'')]"

definition two_calls :: "string parsed" where
  "two_calls = \<lparr>parsed_content = Str [], parsed_toolCalls = Some [weather_call, time_call],
                 parsed_finishReason = Str ''tool_calls''\<rparr>"

section \<open>Lines and remainders\<close>

lemma split_nonempty [simp]: "split s \<noteq> []"
  by (induction s) (auto split: list.splits)

lemma split_append: "split (a @ b) = butlast (split a) @ split (last (split a) @ b)"
  by (induction a) (auto split: list.splits)

lemma split_newline: "split (x @ newline # y) = split x @ split y"
  by (induction x) (auto split: list.splits)

lemma split_no_newline: "newline \<notin> set line \<Longrightarrow> split line = [line]"
  by (induction line) (auto split: list.splits)

lemma for_lines_append: "for_lines f (xs @ ys) = for_lines f xs @ for_lines f ys"
  by (induction xs) auto

lemma pop_or_empty_last: "ls \<noteq> [] \<Longrightarrow> pop_or_empty ls = last ls"
  by (simp add: pop_or_empty_def)

lemma processBuffer_decode_lines: "processBuffer env provider = decode_lines (line_body env provider)"
  by (simp add: fun_eq_iff processBuffer_def decode_lines_def line_body_def processOpenAIBuffer_def
        processAnthropicBuffer_def processGeminiBuffer_def Let_def)

lemma decode_lines_split:
  "decode_lines body (a @ b) =
     (fst (decode_lines body a) @ fst (decode_lines body (snd (decode_lines body a) @ b)),
      snd (decode_lines body (snd (decode_lines body a) @ b)))"
proof -
  have "split (a @ b) = butlast (split a) @ split (last (split a) @ b)"
    by (rule split_append)
  then show ?thesis
    by (simp add: decode_lines_def pop_or_empty_last butlast_append for_lines_append)
qed

lemma decode_lines_drop_line:
  assumes "newline \<notin> set line" and "body line = []" and "before = [] \<or> last before = newline"
  shows "decode_lines body (before @ line @ [newline] @ after) = decode_lines body (before @ after)"
proof (cases "before = []")
  case True
  then show ?thesis
    using assms(2)
    by (simp add: decode_lines_def split_newline split_no_newline [OF assms(1)] pop_or_empty_last)
next
  case False
  then obtain b where b: "before = b @ [newline]"
    using assms(3) by (metis append_butlast_last_id)
  show ?thesis
    using assms(2)
    by (simp add: b decode_lines_def split_newline split_no_newline [OF assms(1)]
          pop_or_empty_last butlast_append for_lines_append)
qed

lemma processBuffer_split:
  "processBuffer env provider (a @ b) =
     (fst (processBuffer env provider a)
        @ fst (processBuffer env provider (snd (processBuffer env provider a) @ b)),
      snd (processBuffer env provider (snd (processBuffer env provider a) @ b)))"
  unfolding processBuffer_decode_lines by (rule decode_lines_split)

section \<open>What the decoders produce\<close>

lemma all_decoded_simps [simp]: "all_decoded skip" "all_decoded throw"
  "all_decoded (push x) = decoded x"
  "all_decoded a \<Longrightarrow> all_decoded b \<Longrightarrow> all_decoded (and_then a b)"
  by (auto simp: all_decoded_def skip_def throw_def push_def and_then_def)

lemma openai_tool_calls_decoded: "all_decoded (openai_tool_calls env xs)"
  by (induction xs) (auto split: option.splits)

lemma openai_data_decoded: "all_decoded (openai_data env data)"
  by (auto simp: openai_data_def Let_def openai_tool_calls_decoded split: option.splits)

lemma anthropic_data_decoded: "all_decoded (anthropic_data env data)"
  by (auto simp: anthropic_data_def Let_def split: option.splits)

lemma gemini_parts_decoded: "all_decoded (gemini_parts env xs)"
  by (induction xs) (auto simp: Let_def split: option.splits)

lemma gemini_data_decoded: "all_decoded (gemini_data env data)"
  by (auto simp: gemini_data_def Let_def gemini_parts_decoded split: option.splits)

lemma line_body_decoded: "list_all decoded (line_body env provider line)"
  using openai_data_decoded [of env] anthropic_data_decoded [of env] gemini_data_decoded [of env]
  by (auto simp: line_body_def openai_line_def anthropic_line_def gemini_line_def all_decoded_def
      split: option.splits)

lemma for_lines_decoded: "(\<And>line. list_all decoded (body line)) \<Longrightarrow> list_all decoded (for_lines body ls)"
  by (induction ls) auto

lemma processBuffer_decoded: "list_all decoded (fst (processBuffer env provider buf))"
  by (simp add: processBuffer_decode_lines decode_lines_def for_lines_decoded line_body_decoded)

lemma openai_line_malformed: "JSON_parse env (drop 6 line) = None \<Longrightarrow> openai_line env line = []"
  by (simp add: openai_line_def)

lemma anthropic_line_malformed:
  "JSON_parse env (drop 6 line) = None \<Longrightarrow> anthropic_line env line = []"
  by (simp add: anthropic_line_def dataMatch_def)

lemma gemini_line_malformed: "JSON_parse env line = None \<Longrightarrow> gemini_line env line = []"
  by (simp add: gemini_line_def)

section \<open>The read loop\<close>

lemma after_call_fields [simp]:
  "calls (snd (after_call out c s)) = calls s @ [c]"
  "fullContent (snd (after_call out c s)) = fullContent s"
  "toolCallsAcc (snd (after_call out c s)) = toolCallsAcc s"
  "thinkingContentAcc (snd (after_call out c s)) = thinkingContentAcc s"
  "buffer (snd (after_call out c s)) = buffer s"
  by (cases out; simp add: after_call_def Let_def)+

lemma after_call_quiet:
  "quiet s \<Longrightarrow> \<not> is_onThinking c \<Longrightarrow> quiet (snd (after_call out c s))"
  by (simp add: quiet_def)

lemma dispatch_item_quiet: "decoded x \<Longrightarrow> quiet s \<Longrightarrow> quiet (snd (dispatch_item env cbs x s))"
  by (cases x) (simp_all add: Let_def quiet_def split: option.splits)

lemma dispatch_quiet: "list_all decoded xs \<Longrightarrow> quiet s \<Longrightarrow> quiet (snd (dispatch env cbs xs s))"
proof (induction xs arbitrary: s)
  case Nil
  then show ?case by simp
next
  case (Cons x xs)
  have "quiet (snd (dispatch_item env cbs x s))"
    using Cons.prems by (simp add: dispatch_item_quiet)
  then show ?case
    using Cons.prems Cons.IH [of "snd (dispatch_item env cbs x s)"]
    by (auto split: prod.splits option.splits)
qed

declare read_loop.simps [simp del]

lemma read_loop_stopped: "\<not> isStreaming s \<Longrightarrow> read_loop env cbs provider reads s = (None, s)"
  by (subst read_loop.simps) simp

lemma read_loop_done: "read_loop env cbs provider [] s = (None, s)"
  by (subst read_loop.simps) simp

lemma read_loop_throws:
  "isStreaming s \<Longrightarrow> read_loop env cbs provider (Read_throws t # rest) s = (Some t, s)"
  by (subst read_loop.simps) simp

lemma read_loop_chunk:
  "isStreaming s \<Longrightarrow>
   read_loop env cbs provider (Chunk chunk stop # rest) s =
     (case dispatch env cbs (fst (processBuffer env provider (buffer s @ chunk)))
             (s\<lparr>isStreaming := \<not> stop,
                buffer := snd (processBuffer env provider (buffer s @ chunk))\<rparr>) of
        (Some t, s3) \<Rightarrow> (Some t, s3)
      | (None, s3) \<Rightarrow> read_loop env cbs provider rest s3)"
  by (subst read_loop.simps) (simp add: Let_def case_prod_beta split: option.splits)

lemma read_loop_quiet: "quiet s \<Longrightarrow> quiet (snd (read_loop env cbs provider reads s))"
proof (induction reads arbitrary: s)
  case Nil
  then show ?case by (simp add: read_loop_done)
next
  case (Cons r reads)
  show ?case
  proof (cases "isStreaming s")
    case False
    then show ?thesis using Cons.prems by (simp add: read_loop_stopped)
  next
    case True
    show ?thesis
    proof (cases r)
      case (Read_throws t)
      then show ?thesis using Cons.prems True by (simp add: read_loop_throws)
    next
      case (Chunk chunk stop)
      let ?p = "processBuffer env provider (buffer s @ chunk)"
      let ?s2 = "s\<lparr>isStreaming := \<not> stop, buffer := snd ?p\<rparr>"
      have q2: "quiet ?s2" using Cons.prems by (simp add: quiet_def)
      obtain t s3 where d: "dispatch env cbs (fst ?p) ?s2 = (t, s3)"
        by (cases "dispatch env cbs (fst ?p) ?s2")
      have "quiet (snd (dispatch env cbs (fst ?p) ?s2))"
        by (rule dispatch_quiet [OF processBuffer_decoded q2])
      then have q3: "quiet s3" unfolding d by simp
      have "read_loop env cbs provider (r # reads) s =
          (case t of Some e \<Rightarrow> (Some e, s3) | None \<Rightarrow> read_loop env cbs provider reads s3)"
        unfolding Chunk read_loop_chunk [OF True] d by (simp split: option.splits)
      then show ?thesis
        using q3 Cons.IH [OF q3] by (simp split: option.splits)
    qed
  qed
qed

lemma try_block_quiet: "quiet (snd (try_block env cbs provider response))"
proof (cases response)
  case (No_reader t)
  then show ?thesis by (simp add: try_block_def quiet_def start_session_def)
next
  case (Reader reads)
  obtain t s where loop: "read_loop env cbs provider reads start_session = (t, s)"
    by (cases "read_loop env cbs provider reads start_session")
  have "quiet (snd (read_loop env cbs provider reads start_session))"
    by (rule read_loop_quiet) (simp add: quiet_def start_session_def)
  then have q: "quiet s" by (simp add: loop)
  show ?thesis
  proof (cases t)
    case (Some e)
    then show ?thesis using Reader loop q by (simp add: try_block_def)
  next
    case None
    let ?r = "\<lparr>content = fullContent s, toolCalls = toolCallsAcc s,
                thinkingContent = thinkingContentAcc s, finishReason = ''stop''\<rparr>"
    have "quiet (snd (after_call (onComplete cbs (calls s) ?r) (Call_onComplete ?r) s))"
      using q by (simp add: after_call_quiet)
    then show ?thesis
      using Reader loop None by (auto simp: try_block_def Let_def split: prod.splits option.splits)
  qed
qed

lemma try_block_result:
  "try_block env cbs provider response = (Inr r, s) \<Longrightarrow>
     finishReason r = ''stop'' \<and> thinkingContent r = thinkingContentAcc s
       \<and> content r = fullContent s \<and> toolCalls r = toolCallsAcc s"
  by (cases response)
     (auto simp: try_block_def Let_def after_call_def split: prod.splits option.splits outcome.splits)

lemma report_quiet: "quiet s \<Longrightarrow> quiet (snd (report cbs e s))"
  using after_call_quiet [of s "Call_onError e" "onError cbs (calls s) e"]
  by (auto simp: report_def split: prod.splits option.splits)

lemma catch_clause_quiet: "quiet s \<Longrightarrow> quiet (snd (catch_clause env cbs t s))"
proof -
  assume "quiet s"
  then have q: "quiet (s\<lparr>isStreaming := False\<rparr>)" by (simp add: quiet_def)
  show ?thesis
    using report_quiet [OF q] q
    by (simp add: catch_clause_def Let_def split: thrown.splits option.splits)
qed

lemma handleStream_Inr:
  "fst (handleStream env cbs provider response) = Inr r \<Longrightarrow>
     \<exists>s. try_block env cbs provider response = (Inr r, s)"
proof -
  assume a: "fst (handleStream env cbs provider response) = Inr r"
  obtain out s where tb: "try_block env cbs provider response = (out, s)"
    by (cases "try_block env cbs provider response")
  show ?thesis
    using a tb by (cases out) (simp_all add: handleStream_def case_prod_beta)
qed

lemma handleStream_quiet: "quiet (snd (handleStream env cbs provider response))"
proof -
  obtain out s where tb: "try_block env cbs provider response = (out, s)"
    by (cases "try_block env cbs provider response")
  have q: "quiet s" using try_block_quiet [of env cbs provider response] by (simp add: tb)
  show ?thesis
  proof (cases out)
    case (Inl t)
    have "quiet (snd (catch_clause env cbs t s))" by (rule catch_clause_quiet [OF q])
    then show ?thesis using tb Inl by (simp add: handleStream_def case_prod_beta quiet_def)
  next
    case (Inr r)
    then show ?thesis using tb q by (simp add: handleStream_def quiet_def)
  qed
qed

section \<open>The delta-SSE pass against its description\<close>

lemma falsy_get: "\<not> truthy env v \<Longrightarrow> get v k = Undefined"
  by (cases v) (simp_all add: get_def)

lemma falsy_index0: "\<not> truthy env v \<Longrightarrow> index0 v = Undefined"
  by (cases v) simp_all

lemma get_Undefined [simp]: "get Undefined k = Undefined"
  by (simp add: get_def)

lemma entries_Undefined [simp]: "entries Undefined = []"
  by (simp add: entries_def)

lemma member_get: "member v k = Some x \<Longrightarrow> get v k = x"
  by (simp add: get_def)

lemma openai_tool_calls_spec:
  "list_all (\<lambda>x. member x ''function'' \<noteq> None) xs \<Longrightarrow>
   openai_tool_calls env xs =
     (map (\<lambda>entry. Tool_call (Obj [(''id'', get entry ''id''),
                                     (''name'', get (get entry ''function'') ''name''),
                                     (''arguments'', get (get entry ''function'') ''arguments'')]))
        (filter (\<lambda>entry. truthy env (get entry ''function'')) xs), False)"
  by (induction xs) (auto simp: skip_def push_def and_then_def member_get)

lemma openai_data_spec:
  assumes "tool_calls_iterable env data"
  shows "fst (openai_data env data) = spec_delta_sse_events env data"
proof (cases "member data ''choices''")
  case None
  then have "get data ''choices'' = Undefined" by (simp add: get_def)
  then show ?thesis
    using None by (simp add: openai_data_def spec_delta_sse_events_def throw_def)
next
  case (Some choices)
  then have c: "get data ''choices'' = choices" by (rule member_get)
  show ?thesis
  proof (cases "truthy env choices \<and> truthy env (index0 choices)")
    case False
    then have "index0 choices = Undefined \<or> \<not> truthy env (index0 choices)"
      using falsy_index0 by blast
    then have "get (index0 choices) k = Undefined" for k
      using falsy_get [of env "index0 choices" k] by auto
    then show ?thesis
      using Some False c by (auto simp: openai_data_def spec_delta_sse_events_def skip_def and_then_def)
  next
    case True
    let ?tcs = "get (get (index0 choices) ''delta'') ''tool_calls''"
    show ?thesis
    proof (cases "truthy env ?tcs")
      case False
      then have "entries ?tcs = []"
        by (cases ?tcs) (simp_all add: entries_def)
      then show ?thesis
        using Some True c False
        by (simp add: openai_data_def spec_delta_sse_events_def skip_def push_def and_then_def Let_def)
    next
      case t: True
      then obtain xs where it: "iterate ?tcs = Some xs"
        and ok: "list_all (\<lambda>x. member x ''function'' \<noteq> None) xs"
        using assms c by (auto simp: tool_calls_iterable_def Let_def split: option.splits)
      show ?thesis
        using Some True c t it
        by (simp add: openai_data_def spec_delta_sse_events_def skip_def push_def and_then_def Let_def
              entries_def openai_tool_calls_spec [OF ok])
    qed
  qed
qed

lemma openai_line_spec:
  "(case parsed_data env line of None \<Rightarrow> True | Some data \<Rightarrow> tool_calls_iterable env data) \<Longrightarrow>
   openai_line env line = spec_delta_sse_line env line"
  by (auto simp: openai_line_def spec_delta_sse_line_def parsed_data_def openai_data_spec
      split: option.splits if_splits)

lemma openai_tool_calls_general:
  "openai_tool_calls env xs =
     (map (\<lambda>entry. Tool_call (Obj [(''id'', get entry ''id''),
                                     (''name'', get (get entry ''function'') ''name''),
                                     (''arguments'', get (get entry ''function'') ''arguments'')]))
        (filter (\<lambda>entry. truthy env (get entry ''function''))
           (takeWhile (\<lambda>entry. member entry ''function'' \<noteq> None) xs)),
      \<not> list_all (\<lambda>x. member x ''function'' \<noteq> None) xs)"
  by (induction xs) (auto simp: skip_def push_def throw_def and_then_def member_get split: option.splits)

lemma openai_data_truncated:
  assumes "\<not> tool_calls_iterable env data"
  shows "fst (openai_data env data) = spec_truncated_events env data"
proof -
  let ?tcs = "get (get (index0 (get data ''choices'')) ''delta'') ''tool_calls''"
  have t: "truthy env ?tcs"
    using assms by (auto simp: tool_calls_iterable_def Let_def split: if_splits)
  have bad: "case iterate ?tcs of None \<Rightarrow> True
             | Some xs \<Rightarrow> \<not> list_all (\<lambda>x. member x ''function'' \<noteq> None) xs"
    using assms t by (auto simp: tool_calls_iterable_def Let_def split: option.splits)
  obtain choices where m: "member data ''choices'' = Some choices"
    using t by (cases "member data ''choices''") (auto simp: get_def)
  then have c: "get data ''choices'' = choices" by (rule member_get)
  have tc: "truthy env choices \<and> truthy env (index0 choices)"
  proof (rule ccontr)
    assume "\<not> ?thesis"
    then have "index0 choices = Undefined \<or> \<not> truthy env (index0 choices)"
      using falsy_index0 by blast
    then have "get (index0 choices) ''delta'' = Undefined"
      using falsy_get [of env "index0 choices" "''delta''"] by auto
    then show False using t c by simp
  qed
  show ?thesis
  proof (cases "iterate ?tcs")
    case None
    then show ?thesis
      using m c tc t
      by (simp add: openai_data_def spec_truncated_events_def Let_def entries_def
            skip_def push_def throw_def and_then_def)
  next
    case (Some xs)
    then have "\<not> list_all (\<lambda>x. member x ''function'' \<noteq> None) xs"
      using bad by simp
    then show ?thesis
      using m c tc t Some
      by (simp add: openai_data_def spec_truncated_events_def Let_def entries_def
            skip_def push_def throw_def and_then_def openai_tool_calls_general)
  qed
qed

lemma openai_line_described: "openai_line env line = described_line env line"
proof (cases "line_iterable env line")
  case True
  then show ?thesis
    using openai_line_spec [of env line] by (simp add: described_line_def line_iterable_def)
next
  case False
  then obtain data where p: "parsed_data env line = Some data" and n: "\<not> tool_calls_iterable env data"
    by (auto simp: line_iterable_def split: option.splits)
  have "openai_line env line = fst (openai_data env data)"
    using p by (auto simp: openai_line_def parsed_data_def split: if_splits)
  then show ?thesis
    using False p by (simp add: described_line_def spec_truncated_line_def openai_data_truncated [OF n])
qed

lemma for_lines_cong_all:
  "list_all (\<lambda>l. f l = g l) ls \<Longrightarrow> for_lines f ls = concat (map g ls)"
  by (induction ls) auto

section \<open>Errors in the stream session\<close>

lemma after_call_fst: "fst (after_call out c s) = (case out of Throws t \<Rightarrow> Some t | _ \<Rightarrow> None)"
  by (cases out) (simp_all add: after_call_def Let_def)

lemma dispatch_item_decoded_throws:
  "decoded x \<Longrightarrow>
   fst (dispatch_item env no_callbacks x s) = None \<or>
   fst (dispatch_item env no_callbacks x s) = Some (Other (TypeError env))"
  by (cases x) (simp_all add: Let_def after_call_fst no_callbacks_def split: option.splits)

lemma dispatch_decoded_throws:
  "list_all decoded xs \<Longrightarrow>
   fst (dispatch env no_callbacks xs s) = None \<or>
   fst (dispatch env no_callbacks xs s) = Some (Other (TypeError env))"
proof (induction xs arbitrary: s)
  case Nil
  then show ?case by simp
next
  case (Cons x xs)
  obtain t s' where d: "dispatch_item env no_callbacks x s = (t, s')"
    by (cases "dispatch_item env no_callbacks x s")
  have "t = None \<or> t = Some (Other (TypeError env))"
    using dispatch_item_decoded_throws [of x env s] Cons.prems by (simp add: d)
  then show ?case
    using Cons.IH [of s'] Cons.prems by (auto simp: d)
qed

lemma dispatch_item_unreported: "unreported s \<Longrightarrow> unreported (snd (dispatch_item env cbs x s))"
  by (cases x) (simp_all add: Let_def unreported_def split: option.splits)

lemma dispatch_unreported: "unreported s \<Longrightarrow> unreported (snd (dispatch env cbs xs s))"
proof (induction xs arbitrary: s)
  case Nil
  then show ?case by simp
next
  case (Cons x xs)
  have "unreported (snd (dispatch_item env cbs x s))"
    using Cons.prems by (simp add: dispatch_item_unreported)
  then show ?case
    using Cons.IH [of "snd (dispatch_item env cbs x s)"]
    by (auto split: prod.splits option.splits)
qed

lemma read_loop_unreported: "unreported s \<Longrightarrow> unreported (snd (read_loop env cbs provider reads s))"
proof (induction reads arbitrary: s)
  case Nil
  then show ?case by (simp add: read_loop_done)
next
  case (Cons r reads)
  show ?case
  proof (cases "isStreaming s")
    case False
    then show ?thesis using Cons.prems by (simp add: read_loop_stopped)
  next
    case True
    show ?thesis
    proof (cases r)
      case (Read_throws t)
      then show ?thesis using Cons.prems True by (simp add: read_loop_throws)
    next
      case (Chunk chunk stop)
      let ?p = "processBuffer env provider (buffer s @ chunk)"
      let ?s2 = "s\<lparr>isStreaming := \<not> stop, buffer := snd ?p\<rparr>"
      have q2: "unreported ?s2" using Cons.prems by (simp add: unreported_def)
      obtain t s3 where d: "dispatch env cbs (fst ?p) ?s2 = (t, s3)"
        by (cases "dispatch env cbs (fst ?p) ?s2")
      have "unreported (snd (dispatch env cbs (fst ?p) ?s2))"
        by (rule dispatch_unreported [OF q2])
      then have q3: "unreported s3" unfolding d by simp
      have "read_loop env cbs provider (r # reads) s =
          (case t of Some e \<Rightarrow> (Some e, s3) | None \<Rightarrow> read_loop env cbs provider reads s3)"
        unfolding Chunk read_loop_chunk [OF True] d by (simp split: option.splits)
      then show ?thesis
        using q3 Cons.IH [OF q3] by (simp split: option.splits)
    qed
  qed
qed

lemma try_block_unreported: "unreported (snd (try_block env cbs provider response))"
proof (cases response)
  case (No_reader t)
  then show ?thesis by (simp add: try_block_def unreported_def start_session_def)
next
  case (Reader reads)
  obtain t s where loop: "read_loop env cbs provider reads start_session = (t, s)"
    by (cases "read_loop env cbs provider reads start_session")
  have "unreported (snd (read_loop env cbs provider reads start_session))"
    by (rule read_loop_unreported) (simp add: unreported_def start_session_def)
  then have q: "unreported s" by (simp add: loop)
  show ?thesis
  proof (cases t)
    case (Some e)
    then show ?thesis using Reader loop q by (simp add: try_block_def)
  next
    case None
    let ?r = "\<lparr>content = fullContent s, toolCalls = toolCallsAcc s,
                thinkingContent = thinkingContentAcc s, finishReason = ''stop''\<rparr>"
    have "unreported (snd (after_call (onComplete cbs (calls s) ?r) (Call_onComplete ?r) s))"
      using q by (simp add: unreported_def)
    then show ?thesis
      using Reader loop None by (auto simp: try_block_def Let_def split: prod.splits option.splits)
  qed
qed

lemma report_returns:
  "returns_normally (onError cbs (calls s) e) \<Longrightarrow>
   fst (report cbs e s) = StreamError_instance e \<and> calls (snd (report cbs e s)) = calls s @ [Call_onError e]"
proof -
  assume r: "returns_normally (onError cbs (calls s) e)"
  obtain t s' where ac: "after_call (onError cbs (calls s) e) (Call_onError e) s = (t, s')"
    by (cases "after_call (onError cbs (calls s) e) (Call_onError e) s")
  have "fst (after_call (onError cbs (calls s) e) (Call_onError e) s) = None"
    using r by (cases "onError cbs (calls s) e") (simp_all add: after_call_fst)
  then have "t = None" by (simp add: ac)
  moreover have "calls s' = calls s @ [Call_onError e]"
    using after_call_fields(1) [of "onError cbs (calls s) e" "Call_onError e" s] by (simp add: ac)
  ultimately show ?thesis by (simp add: report_def ac)
qed

lemma catch_clause_wraps:
  assumes "\<not> nullish_thrown t" and "returns_normally (onError cbs (calls s) (wrapped t))"
  shows "fst (catch_clause env cbs t s) = StreamError_instance (wrapped t) \<and>
         calls (snd (catch_clause env cbs t s)) = calls s @ [Call_onError (wrapped t)]"
proof (cases t)
  case (StreamError_instance e)
  then show ?thesis
    using assms(2) report_returns [of cbs "s\<lparr>isStreaming := False\<rparr>" e]
    by (simp add: catch_clause_def wrapped_def)
next
  case (Other v)
  then obtain m where m: "member v ''message'' = Some m"
    using assms(1) by (cases v) (simp_all add: nullish_thrown_def)
  then have gm: "get v ''message'' = m" by (simp add: get_def)
  show ?thesis
    using assms(2) Other m gm
      report_returns [of cbs "s\<lparr>isStreaming := False\<rparr>" "wrapped t"]
    by (simp add: catch_clause_def wrapped_def)
qed

lemma outcomes_append: "outcomes cbs h (xs @ ys) = outcomes cbs h xs @ outcomes cbs (h @ xs) ys"
  by (induction xs arbitrary: h) auto

lemma after_call_throw: "fst (after_call out c s) = throw_of out"
  by (cases out) (simp_all add: after_call_def Let_def)

lemma after_call_untouched:
  assumes "untouched cbs None s" and "thrown_by cbs (calls s) c = throw_of out"
  shows "untouched cbs (fst (after_call out c s)) (snd (after_call out c s))"
  using assms by (auto simp: untouched_def outcomes_append after_call_throw)

lemma untouched_update [simp]:
  "untouched cbs r (s\<lparr>fullContent := a\<rparr>) = untouched cbs r s"
  "untouched cbs r (s\<lparr>toolCallsAcc := b\<rparr>) = untouched cbs r s"
  "untouched cbs r (s\<lparr>thinkingContentAcc := a\<rparr>) = untouched cbs r s"
  "untouched cbs r (s\<lparr>buffer := a\<rparr>) = untouched cbs r s"
  "untouched cbs r (s\<lparr>isStreaming := d\<rparr>) = untouched cbs r s"
  by (simp_all add: untouched_def)

lemma untouched_Some: "untouched cbs None s \<Longrightarrow> untouched cbs (Some t) s"
  by (simp add: untouched_def)

lemma dispatch_item_untouched:
  assumes "untouched cbs None s"
  shows "untouched cbs (fst (dispatch_item env cbs x s)) (snd (dispatch_item env cbs x s))"
proof (cases x)
  case (Token v)
  show ?thesis
  proof (cases "ToString env v")
    case None
    then show ?thesis using Token assms by (simp add: untouched_Some)
  next
    case (Some shown)
    then show ?thesis
      using Token assms by (simp add: Let_def after_call_untouched)
  qed
next
  case (Thinking v)
  show ?thesis
  proof (cases "ToString env v")
    case None
    then show ?thesis using Thinking assms by (simp add: untouched_Some)
  next
    case (Some shown)
    then show ?thesis
      using Thinking assms by (simp add: Let_def after_call_untouched)
  qed
next
  case (Tool_call v)
  then show ?thesis using assms by (simp add: Let_def after_call_untouched)
next
  case (Finish v)
  then show ?thesis using assms by simp
next
  case (Error_item v)
  then show ?thesis using assms by (simp add: untouched_Some)
qed

lemma dispatch_untouched:
  "untouched cbs None s \<Longrightarrow>
   untouched cbs (fst (dispatch env cbs xs s)) (snd (dispatch env cbs xs s))"
proof (induction xs arbitrary: s)
  case Nil
  then show ?case by simp
next
  case (Cons x xs)
  obtain r s' where d: "dispatch_item env cbs x s = (r, s')"
    by (cases "dispatch_item env cbs x s")
  have u: "untouched cbs r s'"
    using dispatch_item_untouched [OF Cons.prems, of env x] by (simp add: d)
  show ?case
  proof (cases r)
    case None
    then show ?thesis using Cons.IH [of s'] u by (simp add: d)
  next
    case (Some t)
    then show ?thesis using u by (simp add: d)
  qed
qed

lemma read_loop_untouched:
  "untouched cbs None s \<Longrightarrow>
   untouched cbs (fst (read_loop env cbs provider reads s)) (snd (read_loop env cbs provider reads s))"
proof (induction reads arbitrary: s)
  case Nil
  then show ?case by (simp add: read_loop_done)
next
  case (Cons r reads)
  show ?case
  proof (cases "isStreaming s")
    case False
    then show ?thesis using Cons.prems by (simp add: read_loop_stopped)
  next
    case True
    show ?thesis
    proof (cases r)
      case (Read_throws t)
      then show ?thesis using Cons.prems True by (simp add: read_loop_throws untouched_Some)
    next
      case (Chunk chunk stop)
      let ?p = "processBuffer env provider (buffer s @ chunk)"
      let ?s2 = "s\<lparr>isStreaming := \<not> stop, buffer := snd ?p\<rparr>"
      have q2: "untouched cbs None ?s2" using Cons.prems by simp
      obtain t s3 where d: "dispatch env cbs (fst ?p) ?s2 = (t, s3)"
        by (cases "dispatch env cbs (fst ?p) ?s2")
      have "untouched cbs (fst (dispatch env cbs (fst ?p) ?s2)) (snd (dispatch env cbs (fst ?p) ?s2))"
        by (rule dispatch_untouched [OF q2])
      then have q3: "untouched cbs t s3" unfolding d by simp
      have step: "read_loop env cbs provider (r # reads) s =
          (case t of Some e \<Rightarrow> (Some e, s3) | None \<Rightarrow> read_loop env cbs provider reads s3)"
        unfolding Chunk read_loop_chunk [OF True] d by (simp split: option.splits)
      show ?thesis
      proof (cases t)
        case None
        then show ?thesis using q3 Cons.IH [of s3] by (simp add: step)
      next
        case (Some e)
        then show ?thesis using q3 by (simp add: step)
      qed
    qed
  qed
qed

lemma try_block_untouched:
  "Some t \<in> set (outcomes cbs [] (calls (snd (try_block env cbs provider response)))) \<Longrightarrow>
   fst (try_block env cbs provider response) = Inl t"
proof (cases response)
  case (No_reader e)
  assume "Some t \<in> set (outcomes cbs [] (calls (snd (try_block env cbs provider response))))"
  then show ?thesis using No_reader by (simp add: try_block_def start_session_def)
next
  case (Reader reads)
  assume a: "Some t \<in> set (outcomes cbs [] (calls (snd (try_block env cbs provider response))))"
  obtain r s where loop: "read_loop env cbs provider reads start_session = (r, s)"
    by (cases "read_loop env cbs provider reads start_session")
  have "untouched cbs None (start_session :: 'a session)"
    by (simp add: untouched_def start_session_def)
  then have u: "untouched cbs r s"
    using read_loop_untouched [of cbs start_session env provider reads] by (simp add: loop)
  show ?thesis
  proof (cases r)
    case (Some e)
    then show ?thesis using Reader loop u a by (simp add: try_block_def untouched_def)
  next
    case None
    let ?r = "\<lparr>content = fullContent s, toolCalls = toolCallsAcc s,
                thinkingContent = thinkingContentAcc s, finishReason = ''stop''\<rparr>"
    let ?ac = "after_call (onComplete cbs (calls s) ?r) (Call_onComplete ?r) s"
    have u2: "untouched cbs (fst ?ac) (snd ?ac)"
      using u None by (intro after_call_untouched) simp_all
    have tb: "try_block env cbs provider response =
        (case fst ?ac of Some e \<Rightarrow> Inl e | None \<Rightarrow> Inr ?r, snd ?ac)"
      using Reader loop None by (simp add: try_block_def Let_def split: prod.splits option.splits)
    show ?thesis
      using a u2 by (auto simp: tb untouched_def)
  qed
qed

lemma report_calls:
  "calls (snd (report cbs e s)) = calls s @ [Call_onError e]"
proof -
  obtain r s' where ac: "after_call (onError cbs (calls s) e) (Call_onError e) s = (r, s')"
    by (cases "after_call (onError cbs (calls s) e) (Call_onError e) s")
  have "calls (snd (after_call (onError cbs (calls s) e) (Call_onError e) s)) = calls s @ [Call_onError e]"
    by simp
  then have "calls s' = calls s @ [Call_onError e]"
    unfolding ac by simp
  then show ?thesis
    by (cases r) (simp_all add: report_def ac)
qed

lemma catch_clause_outcomes:
  "set (outcomes cbs [] (calls (snd (catch_clause env cbs t s)))) \<subseteq>
     insert None (set (outcomes cbs [] (calls s)))"
  by (auto simp: catch_clause_def Let_def report_calls outcomes_append split: thrown.splits option.splits)

lemma handleStream_outcomes:
  "Some t \<in> set (outcomes cbs [] (calls (snd (handleStream env cbs provider response)))) \<Longrightarrow>
   Some t \<in> set (outcomes cbs [] (calls (snd (try_block env cbs provider response))))"
proof -
  assume a: "Some t \<in> set (outcomes cbs [] (calls (snd (handleStream env cbs provider response))))"
  obtain out s where tb: "try_block env cbs provider response = (out, s)"
    by (cases "try_block env cbs provider response")
  show ?thesis
  proof (cases out)
    case (Inl e)
    then show ?thesis
      using a tb catch_clause_outcomes [of cbs env e s]
      by (auto simp: handleStream_def case_prod_beta)
  next
    case (Inr r)
    then show ?thesis using a tb by (simp add: handleStream_def)
  qed
qed

lemma read_loop_append:
  "read_loop env cbs provider (pre @ later) s =
     (case read_loop env cbs provider pre s of
        (Some t, s') \<Rightarrow> (Some t, s')
      | (None, s') \<Rightarrow> read_loop env cbs provider later s')"
proof (induction pre arbitrary: s)
  case Nil
  then show ?case by (simp add: read_loop_done)
next
  case (Cons r pre)
  show ?case
  proof (cases "isStreaming s")
    case False
    then show ?thesis by (simp add: read_loop_stopped)
  next
    case True
    show ?thesis
    proof (cases r)
      case (Read_throws t)
      then show ?thesis using True by (simp add: read_loop_throws)
    next
      case (Chunk chunk stop)
      then show ?thesis
        using True Cons.IH by (simp add: read_loop_chunk split: prod.splits option.splits)
    qed
  qed
qed

lemma read_raises_leaves_try_block:
  assumes "read_raises env cbs provider reads t"
  shows "fst (try_block env cbs provider (Reader reads)) = Inl t"
proof -
  obtain i where i: "i < length reads" and r: "reads ! i = Read_throws t"
    and p: "case read_loop env cbs provider (take i reads) start_session of
              (None, s) \<Rightarrow> isStreaming s | (Some e, s) \<Rightarrow> False"
    using assms by (auto simp: read_raises_def list_ex_iff)
  obtain s where pre: "read_loop env cbs provider (take i reads) start_session = (None, s)"
    and st: "isStreaming s"
    using p by (auto split: prod.splits option.splits)
  have "reads = take i reads @ Read_throws t # drop (Suc i) reads"
    using i r by (metis id_take_nth_drop)
  then have "read_loop env cbs provider reads start_session =
      read_loop env cbs provider (take i reads @ Read_throws t # drop (Suc i) reads) start_session"
    by simp
  also have "\<dots> = (Some t, s)"
    using pre st by (simp add: read_loop_append read_loop_throws)
  finally show ?thesis by (simp add: try_block_def)
qed

lemma raised_leaves_try_block:
  assumes "raised env cbs provider response t"
  shows "fst (try_block env cbs provider response) = Inl t"
proof -
  consider "case response of No_reader e \<Rightarrow> e = t | Reader reads \<Rightarrow> read_raises env cbs provider reads t"
    | "Some t \<in> set (outcomes cbs [] (calls (snd (handleStream env cbs provider response))))"
    using assms by (auto simp: raised_def)
  then show ?thesis
  proof cases
    case 1
    show ?thesis
    proof (cases response)
      case (No_reader e)
      then show ?thesis using 1 by (simp add: try_block_def)
    next
      case (Reader reads)
      then show ?thesis using 1 by (simp add: read_raises_leaves_try_block)
    qed
  next
    case 2
    then show ?thesis by (intro try_block_untouched handleStream_outcomes)
  qed
qed

section \<open>Splitting a chunk\<close>

lemma dispatch_append:
  "dispatch env cbs (xs @ ys) s =
     (case dispatch env cbs xs s of
        (Some t, s') \<Rightarrow> (Some t, s')
      | (None, s') \<Rightarrow> dispatch env cbs ys s')"
  by (induction xs arbitrary: s) (auto split: prod.splits option.splits)

lemma after_call_reposition:
  "\<not> stops out \<Longrightarrow>
   after_call out c (reposition f b s) = (fst (after_call out c s), reposition f b (snd (after_call out c s)))"
  by (cases out) (simp_all add: after_call_def reposition_def Let_def)

lemma reposition_fields [simp]:
  "calls (reposition c b s) = calls s"
  "fullContent (reposition c b s) = fullContent s"
  "toolCallsAcc (reposition c b s) = toolCallsAcc s"
  "thinkingContentAcc (reposition c b s) = thinkingContentAcc s"
  "reposition c b (s\<lparr>fullContent := x\<rparr>) = (reposition c b s)\<lparr>fullContent := x\<rparr>"
  "reposition c b (s\<lparr>toolCallsAcc := y\<rparr>) = (reposition c b s)\<lparr>toolCallsAcc := y\<rparr>"
  "reposition c b (s\<lparr>thinkingContentAcc := x\<rparr>) = (reposition c b s)\<lparr>thinkingContentAcc := x\<rparr>"
  by (simp_all add: reposition_def)

lemma dispatch_item_reposition:
  assumes "never_stops cbs"
  shows "dispatch_item env cbs x (reposition c b s) =
         (fst (dispatch_item env cbs x s), reposition c b (snd (dispatch_item env cbs x s)))"
proof (cases x)
  case (Token v)
  have "\<not> stops (onToken cbs h v)" for h using assms by (simp add: never_stops_def)
  then show ?thesis
    using Token by (simp add: Let_def after_call_reposition [symmetric] split: option.splits)
next
  case (Thinking v)
  have "\<not> stops (onThinking cbs h w)" for h w using assms by (simp add: never_stops_def)
  then show ?thesis
    using Thinking by (simp add: Let_def after_call_reposition [symmetric] split: option.splits)
next
  case (Tool_call v)
  have "\<not> stops (onToolCall cbs h v)" for h using assms by (simp add: never_stops_def)
  then show ?thesis
    using Tool_call by (simp add: Let_def after_call_reposition [symmetric])
next
  case (Finish v)
  then show ?thesis by simp
next
  case (Error_item v)
  then show ?thesis by simp
qed

lemma dispatch_reposition:
  assumes "never_stops cbs"
  shows "dispatch env cbs xs (reposition c b s) =
         (fst (dispatch env cbs xs s), reposition c b (snd (dispatch env cbs xs s)))"
proof (induction xs arbitrary: s)
  case Nil
  then show ?case by simp
next
  case (Cons x xs)
  obtain t s' where d: "dispatch_item env cbs x s = (t, s')"
    by (cases "dispatch_item env cbs x s")
  show ?case
    using Cons.IH [of s']
    by (cases t) (simp_all add: dispatch_item_reposition [OF assms] d)
qed

lemma dispatch_keeps_position:
  assumes "never_stops cbs"
  shows "isStreaming (snd (dispatch env cbs xs s)) = isStreaming s"
    and "buffer (snd (dispatch env cbs xs s)) = buffer s"
proof -
  let ?s' = "snd (dispatch env cbs xs s)"
  have "reposition (isStreaming s) (buffer s) s = s" by (simp add: reposition_def)
  then have "dispatch env cbs xs s = (fst (dispatch env cbs xs s), reposition (isStreaming s) (buffer s) ?s')"
    using dispatch_reposition [OF assms, of env xs "isStreaming s" "buffer s" s] by simp
  then have "snd (dispatch env cbs xs s) = reposition (isStreaming s) (buffer s) ?s'"
    by (metis snd_conv)
  then have eq: "?s' = ?s'\<lparr>isStreaming := isStreaming s, buffer := buffer s\<rparr>"
    by (simp add: reposition_def)
  show "isStreaming ?s' = isStreaming s"
    by (subst eq) simp
  show "buffer ?s' = buffer s"
    by (subst eq) simp
qed

lemma catch_clause_reposition:
  "catch_clause env cbs t (reposition c b s) =
     (fst (catch_clause env cbs t s), (snd (catch_clause env cbs t s))\<lparr>buffer := b\<rparr>)"
proof -
  have ac: "after_call out cl (s\<lparr>buffer := b, isStreaming := False\<rparr>) =
        (fst (after_call out cl (s\<lparr>isStreaming := False\<rparr>)),
         (snd (after_call out cl (s\<lparr>isStreaming := False\<rparr>)))\<lparr>buffer := b\<rparr>)" for out cl
    by (cases out) (simp_all add: after_call_def Let_def)
  have rep: "report cbs e (s\<lparr>buffer := b, isStreaming := False\<rparr>) =
        (fst (report cbs e (s\<lparr>isStreaming := False\<rparr>)),
         (snd (report cbs e (s\<lparr>isStreaming := False\<rparr>)))\<lparr>buffer := b\<rparr>)" for e
    by (simp add: report_def ac case_prod_beta split: option.splits)
  show ?thesis
    by (simp add: catch_clause_def reposition_def rep Let_def split: thrown.splits option.splits)
qed

lemma read_loop_two_chunks:
  assumes "never_stops cbs" and "isStreaming s"
  shows "read_loop env cbs provider (Chunk a False # Chunk b stop # rest) s =
           read_loop env cbs provider (Chunk (a @ b) stop # rest) s
         \<or> (\<exists>t s3 c r. read_loop env cbs provider (Chunk a False # Chunk b stop # rest) s = (Some t, s3)
              \<and> read_loop env cbs provider (Chunk (a @ b) stop # rest) s = (Some t, reposition c r s3))"
proof -
  let ?p1 = "processBuffer env provider (buffer s @ a)"
  let ?p2 = "processBuffer env provider (snd ?p1 @ b)"
  let ?s2 = "reposition True (snd ?p1) s"
  have whole: "processBuffer env provider (buffer s @ a @ b) = (fst ?p1 @ fst ?p2, snd ?p2)"
    using processBuffer_split [of env provider "buffer s @ a" b] by simp
  obtain t s3 where d1: "dispatch env cbs (fst ?p1) ?s2 = (t, s3)"
    by (cases "dispatch env cbs (fst ?p1) ?s2")
  have two: "read_loop env cbs provider (Chunk a False # Chunk b stop # rest) s =
        (case t of Some e \<Rightarrow> (Some e, s3)
         | None \<Rightarrow> read_loop env cbs provider (Chunk b stop # rest) s3)"
    using d1 by (simp add: read_loop_chunk [OF assms(2)] reposition_def split: option.splits)
  have "reposition (\<not> stop) (snd ?p2) ?s2 = reposition (\<not> stop) (snd ?p2) s"
    by (simp add: reposition_def)
  then have d1': "dispatch env cbs (fst ?p1) (reposition (\<not> stop) (snd ?p2) s) =
        (t, reposition (\<not> stop) (snd ?p2) s3)"
    using dispatch_reposition [OF assms(1), of env "fst ?p1" "\<not> stop" "snd ?p2" ?s2] d1 by simp
  have one: "read_loop env cbs provider (Chunk (a @ b) stop # rest) s =
        (case t of Some e \<Rightarrow> (Some e, reposition (\<not> stop) (snd ?p2) s3)
         | None \<Rightarrow>
            (case dispatch env cbs (fst ?p2) (reposition (\<not> stop) (snd ?p2) s3) of
               (Some e, s4) \<Rightarrow> (Some e, s4)
             | (None, s4) \<Rightarrow> read_loop env cbs provider rest s4))"
    using d1'
    by (simp add: read_loop_chunk [OF assms(2)] whole dispatch_append reposition_def [symmetric]
          split: option.splits)
  show ?thesis
  proof (cases t)
    case (Some e)
    then show ?thesis using two one by auto
  next
    case None
    have "isStreaming s3" and "buffer s3 = snd ?p1"
      using dispatch_keeps_position [OF assms(1), of env "fst ?p1" ?s2] d1
      by (simp_all add: reposition_def)
    then have "read_loop env cbs provider (Chunk b stop # rest) s3 =
        (case dispatch env cbs (fst ?p2) (reposition (\<not> stop) (snd ?p2) s3) of
               (Some e, s4) \<Rightarrow> (Some e, s4)
             | (None, s4) \<Rightarrow> read_loop env cbs provider rest s4)"
      by (simp add: read_loop_chunk reposition_def)
    then show ?thesis using two one None by simp
  qed
qed

section \<open>Tool calls in the read loop\<close>

lemma after_call_with_settlement: "after_call (with_settlement p out) c s = after_call out c s"
  by (cases "(p, out)" rule: with_settlement.cases) (simp_all add: after_call_def)

lemma resettle_fields [simp]:
  "onToken (resettle f cbs) = onToken cbs"
  "onThinking (resettle f cbs) = onThinking cbs"
  "onComplete (resettle f cbs) = onComplete cbs"
  "onError (resettle f cbs) = onError cbs"
  "onToolCall (resettle f cbs) h d = with_settlement (f h d) (onToolCall cbs h d)"
  by (simp_all add: resettle_def)

lemma dispatch_item_resettle: "dispatch_item env (resettle f cbs) x s = dispatch_item env cbs x s"
  by (cases x) (simp_all add: Let_def after_call_with_settlement split: option.splits)

lemma dispatch_resettle: "dispatch env (resettle f cbs) xs s = dispatch env cbs xs s"
  by (induction xs arbitrary: s) (simp_all add: dispatch_item_resettle split: prod.splits option.splits)

lemma read_loop_resettle:
  "read_loop env (resettle f cbs) provider reads s = read_loop env cbs provider reads s"
proof (induction reads arbitrary: s)
  case Nil
  then show ?case by (simp add: read_loop_done)
next
  case (Cons r reads)
  show ?case
  proof (cases "isStreaming s")
    case False
    then show ?thesis by (simp add: read_loop_stopped)
  next
    case True
    show ?thesis
    proof (cases r)
      case (Read_throws t)
      then show ?thesis using True by (simp add: read_loop_throws)
    next
      case (Chunk chunk stop)
      then show ?thesis
        using True Cons.IH
        by (simp add: read_loop_chunk dispatch_resettle split: prod.splits option.splits)
    qed
  qed
qed

lemma report_resettle: "report (resettle f cbs) = report cbs"
  by (simp add: fun_eq_iff report_def)

lemma catch_clause_resettle: "catch_clause env (resettle f cbs) = catch_clause env cbs"
  unfolding fun_eq_iff catch_clause_def report_resettle by simp

lemma try_block_resettle: "try_block env (resettle f cbs) = try_block env cbs"
  unfolding fun_eq_iff try_block_def read_loop_resettle resettle_fields(3) by simp

lemma handleStream_resettle:
  "handleStream env (resettle f cbs) provider response = handleStream env cbs provider response"
  unfolding handleStream_def try_block_resettle catch_clause_resettle by (rule refl)

lemma dispatch_item_calls_grow:
  "\<exists>later. calls (snd (dispatch_item env cbs x s)) = calls s @ later"
  by (cases x) (simp_all add: Let_def split: option.splits)

lemma dispatch_calls_grow: "\<exists>later. calls (snd (dispatch env cbs xs s)) = calls s @ later"
proof (induction xs arbitrary: s)
  case Nil
  then show ?case by simp
next
  case (Cons x xs)
  obtain r s' where d: "dispatch_item env cbs x s = (r, s')"
    by (cases "dispatch_item env cbs x s")
  obtain l1 where l1: "calls s' = calls s @ l1"
    using dispatch_item_calls_grow [of env cbs x s] by (auto simp: d)
  obtain l2 where l2: "calls (snd (dispatch env cbs xs s')) = calls s' @ l2"
    using Cons.IH [of s'] by auto
  show ?case
    by (cases r) (simp_all add: d l1 l2)
qed

lemma tool_call_dispatched:
  "onToolCall cbs (calls s) d = Returns v \<Longrightarrow>
   dispatch_item env cbs (Tool_call d) s =
     (None, s\<lparr>toolCallsAcc := toolCallsAcc s @ [d], calls := calls s @ [Call_onToolCall d]\<rparr>)"
  by (simp add: Let_def after_call_def)

lemma later_token_reaches_onToken:
  assumes "onToolCall cbs (calls s) d = Returns v" and "ToString env c = Some shown"
  shows "\<exists>later. calls (snd (dispatch env cbs (Tool_call d # Token c # items) s)) =
           calls s @ Call_onToolCall d # Call_onToken c # later"
proof -
  let ?s1 = "s\<lparr>toolCallsAcc := toolCallsAcc s @ [d], calls := calls s @ [Call_onToolCall d]\<rparr>"
  obtain r s2 where t: "dispatch_item env cbs (Token c) ?s1 = (r, s2)"
    by (cases "dispatch_item env cbs (Token c) ?s1")
  have "calls (snd (dispatch_item env cbs (Token c) ?s1)) = calls ?s1 @ [Call_onToken c]"
    using assms(2) by (simp add: Let_def)
  then have c2: "calls s2 = calls s @ [Call_onToolCall d, Call_onToken c]"
    unfolding t by simp
  obtain l where l: "calls (snd (dispatch env cbs items s2)) = calls s2 @ l"
    using dispatch_calls_grow [of env cbs items s2] by auto
  have "dispatch env cbs (Tool_call d # Token c # items) s =
      (case r of Some e \<Rightarrow> (Some e, s2) | None \<Rightarrow> dispatch env cbs items s2)"
    using tool_call_dispatched [OF assms(1), of env] t by (simp split: option.splits)
  then show ?thesis
    by (cases r) (simp_all add: c2 l)
qed

section \<open>Tool failures in the two orchestration paths\<close>

lemma execute_and_log_failed:
  "executeTool reg name args = Inl error \<Longrightarrow>
   execute_and_log env reg name args = (Inl error, [LogToolCallFailed name args error, ConsoleError error])"
  by (simp add: execute_and_log_def)

lemma execute_and_log_not_initiated: "filter is_initiated (snd (execute_and_log env reg name args)) = []"
  by (simp add: execute_and_log_def Let_def split: sum.splits option.splits)

lemma call_option_not_initiated:
  "filter is_initiated (snd (call_option cb x (Options_onToolCall y))) = []"
  by (simp add: call_option_def split: option.splits)

lemma tool_calls_loop_step:
  assumes "dispatchable opts toolCall"
  shows "tool_calls_loop env reg opts (toolCall # rest) =
     (fst (tool_calls_loop env reg opts rest),
      [LogToolCallInitiated (get toolCall ''name'') (get toolCall ''arguments'')]
        @ snd (call_option (options_onToolCall opts) toolCall (Options_onToolCall toolCall))
        @ (if hasTool reg (get toolCall ''name'')
           then snd (execute_and_log env reg (get toolCall ''name'') (get toolCall ''arguments''))
           else [])
        @ snd (tool_calls_loop env reg opts rest))"
proof -
  obtain name where n: "member toolCall ''name'' = Some name"
    using assms by (auto simp: dispatchable_def)
  then have g: "get toolCall ''name'' = name" by (simp add: get_def)
  obtain fx1 where c: "call_option (options_onToolCall opts) toolCall (Options_onToolCall toolCall) = (None, fx1)"
    using assms by (cases "call_option (options_onToolCall opts) toolCall (Options_onToolCall toolCall)")
      (simp add: dispatchable_def callback_returns_def)
  show ?thesis
    by (simp add: n g c Let_def case_prod_beta)
qed

declare tool_calls_loop.simps(2) [simp del]

lemma tool_calls_loop_completes:
  "list_all (dispatchable opts) tcs \<Longrightarrow>
   fst (tool_calls_loop env reg opts tcs) = None \<and>
   filter is_initiated (snd (tool_calls_loop env reg opts tcs)) =
     map (\<lambda>tc. LogToolCallInitiated (get tc ''name'') (get tc ''arguments'')) tcs"
proof (induction tcs)
  case Nil
  then show ?case by simp
next
  case (Cons tc tcs)
  then have d: "dispatchable opts tc" and rest: "list_all (dispatchable opts) tcs" by simp_all
  show ?case
    using Cons.IH [OF rest]
    by (simp add: tool_calls_loop_step [OF d] execute_and_log_not_initiated call_option_not_initiated)
qed

lemma tool_calls_loop_logs_failure:
  "list_all (dispatchable opts) tcs \<Longrightarrow> toolCall \<in> set tcs \<Longrightarrow>
   hasTool reg (get toolCall ''name'') \<Longrightarrow>
   executeTool reg (get toolCall ''name'') (get toolCall ''arguments'') = Inl error \<Longrightarrow>
   LogToolCallFailed (get toolCall ''name'') (get toolCall ''arguments'') error
     \<in> set (snd (tool_calls_loop env reg opts tcs))"
proof (induction tcs)
  case Nil
  then show ?case by simp
next
  case (Cons tc tcs)
  then have d: "dispatchable opts tc" and rest: "list_all (dispatchable opts) tcs" by simp_all
  show ?case
  proof (cases "toolCall = tc")
    case True
    then show ?thesis
      using Cons.prems(3,4) by (simp add: tool_calls_loop_step [OF d] execute_and_log_failed)
  next
    case False
    then have "toolCall \<in> set tcs" using Cons.prems(2) by simp
    then show ?thesis
      using Cons.IH [OF rest _ Cons.prems(3,4)] by (simp add: tool_calls_loop_step [OF d])
  qed
qed

section \<open>The claims\<close>

text \<open>
  C10. For a provider tag other than \<^verbatim>\<open>openai\<close>, \<^verbatim>\<open>deepseek\<close>, \<^verbatim>\<open>anthropic\<close> and \<^verbatim>\<open>gemini\<close>,
  \<^verbatim>\<open>processBuffer\<close> produces the same items and leaves the same remainder as with the tag
  \<^verbatim>\<open>openai\<close>, for every buffer.
\<close>

theorem unknown_tag_decodes_as_openai:
  "provider \<notin> {''openai'', ''deepseek'', ''anthropic'', ''gemini''} \<Longrightarrow>
   processBuffer env provider buf = processBuffer env ''openai'' buf"
  by (simp add: processBuffer_def)

theorem unknown_tag_decodes_as_openai_witness:
  "''mistral'' \<notin> {''openai'', ''deepseek'', ''anthropic'', ''gemini''} \<and>
   processBuffer sample_env ''mistral'' (''data: '' @ openai_hi @ [newline] @ ''data: [DO'') =
   processBuffer sample_env ''openai'' (''data: '' @ openai_hi @ [newline] @ ''data: [DO'') \<and>
   processBuffer sample_env ''mistral'' (''data: '' @ openai_hi @ [newline] @ ''data: [DO'') =
   ([Token (Str ''Hi'')], ''data: [DO'')"
proof -
  have tag: "''mistral'' \<notin> {''openai'', ''deepseek'', ''anthropic'', ''gemini''}"
    by simp
  have "processBuffer sample_env ''openai'' (''data: '' @ openai_hi @ [newline] @ ''data: [DO'') =
        ([Token (Str ''Hi'')], ''data: [DO'')"
    by code_simp
  with tag unknown_tag_decodes_as_openai [OF tag, of sample_env "''data: '' @ openai_hi @ [newline] @ ''data: [DO''"]
  show ?thesis by simp
qed

text \<open>
  C1. For every provider tag and every payload, decoding a first chunk and then the
  returned remainder followed by the second chunk yields the items of both passes, in
  order, that decoding the whole payload in one pass yields, and the same final remainder.
  Hence a stream session whose callbacks never request a stop settles in the same way, with
  the same accumulated content, tool calls and thinking text and the same callback
  invocations, whether a piece of text arrives as two chunks or as one.
\<close>

theorem split_invariance:
  "processBuffer env provider (a @ b) =
     (let (events1, remainder1) = processBuffer env provider a;
          (events2, remainder2) = processBuffer env provider (remainder1 @ b)
      in (events1 @ events2, remainder2)) \<and>
   (never_stops cbs \<longrightarrow>
      handleStream env cbs provider (Reader (Chunk a False # Chunk b stop # rest)) =
      handleStream env cbs provider (Reader (Chunk (a @ b) stop # rest)))"
proof -
  have decoder: "processBuffer env provider (a @ b) =
     (let (events1, remainder1) = processBuffer env provider a;
          (events2, remainder2) = processBuffer env provider (remainder1 @ b)
      in (events1 @ events2, remainder2))"
    by (simp only: Let_def case_prod_beta processBuffer_split [of env provider a b])
  have "handleStream env cbs provider (Reader (Chunk a False # Chunk b stop # rest)) =
        handleStream env cbs provider (Reader (Chunk (a @ b) stop # rest))"
    if ns: "never_stops cbs"
  proof -
    let ?two = "read_loop env cbs provider (Chunk a False # Chunk b stop # rest) start_session"
    let ?one = "read_loop env cbs provider (Chunk (a @ b) stop # rest) start_session"
    have st: "isStreaming start_session" by (simp add: start_session_def)
    consider "?two = ?one"
      | t s3 c r where "?two = (Some t, s3)" and "?one = (Some t, reposition c r s3)"
      using read_loop_two_chunks [OF ns st] by blast
    then show ?thesis
    proof cases
      case 1
      then show ?thesis by (simp add: handleStream_def try_block_def)
    next
      case 2
      then show ?thesis
        by (simp add: handleStream_def try_block_def catch_clause_reposition case_prod_beta)
    qed
  qed
  with decoder show ?thesis by blast
qed

theorem split_invariance_witness:
  "never_stops (no_callbacks :: string callbacks) \<and>
   processBuffer sample_env ''openai'' (take 17 two_lines) = ([], take 17 two_lines) \<and>
   handleStream sample_env no_callbacks ''openai''
     (Reader [Chunk (take 17 two_lines) False, Chunk (drop 17 two_lines) False]) =
   handleStream sample_env no_callbacks ''openai''
     (Reader [Chunk (take 17 two_lines @ drop 17 two_lines) False]) \<and>
   fst (handleStream sample_env no_callbacks ''openai''
     (Reader [Chunk (take 17 two_lines) False, Chunk (drop 17 two_lines) False])) =
   Inr \<lparr>content = ''Hilo'', toolCalls = [], thinkingContent = [], finishReason = ''stop''\<rparr>"
proof -
  have ns: "never_stops (no_callbacks :: string callbacks)"
    by (simp add: never_stops_def no_callbacks_def)
  have first: "processBuffer sample_env ''openai'' (take 17 two_lines) = ([], take 17 two_lines)"
    by code_simp
  have run: "fst (handleStream sample_env no_callbacks ''openai''
     (Reader [Chunk (take 17 two_lines) False, Chunk (drop 17 two_lines) False])) =
     Inr \<lparr>content = ''Hilo'', toolCalls = [], thinkingContent = [], finishReason = ''stop''\<rparr>"
    by code_simp
  show ?thesis
    using ns first run
      split_invariance [of sample_env "''openai''" "take 17 two_lines" "drop 17 two_lines"
        no_callbacks False "[]"]
    by blast
qed

text \<open>
  C5. In the read loop a decoded tool call is appended to \<^verbatim>\<open>toolCalls\<close> and \<^verbatim>\<open>onToolCall\<close>
  is invoked; whatever the callback returns (a promise that is still pending, or one that
  will be rejected) is dropped, not awaited: the loop goes on at once. A chunk that holds a
  tool call is followed by the next read, a token that follows the tool call reaches
  \<^verbatim>\<open>onToken\<close> next, and the whole invocation of \<^verbatim>\<open>handleStream\<close> is the same however the
  promises returned by \<^verbatim>\<open>onToolCall\<close> settle.
\<close>

theorem tool_call_dispatched_without_waiting:
  "(onToolCall cbs (calls s) d = Returns v \<longrightarrow>
      dispatch_item env cbs (Tool_call d) s =
        (None, s\<lparr>toolCallsAcc := toolCallsAcc s @ [d], calls := calls s @ [Call_onToolCall d]\<rparr>)) \<and>
   (onToolCall cbs (calls s) d = Returns v \<and> ToString env c = Some shown \<longrightarrow>
      (\<exists>later. calls (snd (dispatch env cbs (Tool_call d # Token c # items) s)) =
                 calls s @ Call_onToolCall d # Call_onToken c # later)) \<and>
   (isStreaming s \<and> processBuffer env provider (buffer s @ chunk) = ([Tool_call d], remainder)
      \<and> onToolCall cbs (calls s) d = Returns v \<longrightarrow>
      read_loop env cbs provider (Chunk chunk False # reads) s =
      read_loop env cbs provider reads
        (s\<lparr>buffer := remainder, toolCallsAcc := toolCallsAcc s @ [d],
           calls := calls s @ [Call_onToolCall d]\<rparr>)) \<and>
   handleStream env (resettle f cbs) provider response = handleStream env cbs provider response"
proof -
  have next_read: "read_loop env cbs provider (Chunk chunk False # reads) s =
      read_loop env cbs provider reads
        (s\<lparr>buffer := remainder, toolCallsAcc := toolCallsAcc s @ [d],
           calls := calls s @ [Call_onToolCall d]\<rparr>)"
    if st: "isStreaming s"
      and pb: "processBuffer env provider (buffer s @ chunk) = ([Tool_call d], remainder)"
      and ret: "onToolCall cbs (calls s) d = Returns v"
  proof -
    have same: "s\<lparr>isStreaming := True\<rparr> = s"
      using st by (cases s) simp
    have "dispatch env cbs [Tool_call d] (s\<lparr>buffer := remainder\<rparr>) =
        (None, s\<lparr>buffer := remainder, toolCallsAcc := toolCallsAcc s @ [d],
                 calls := calls s @ [Call_onToolCall d]\<rparr>)"
      using tool_call_dispatched [of cbs "s\<lparr>buffer := remainder\<rparr>" d v env] ret by simp
    then show ?thesis
      using same by (simp add: read_loop_chunk [OF st] pb)
  qed
  show ?thesis
    using tool_call_dispatched [of cbs s d v env]
      later_token_reaches_onToken [of cbs s d v env c shown items]
      next_read handleStream_resettle [of env f cbs provider response]
    by blast
qed

theorem tool_call_dispatched_without_waiting_witness:
  "onToolCall pending_tool (calls start_session) weather_fragment = Returns (Promise Pending) \<and>
   ToString sample_env (Str ''Hi'') = Some ''Hi'' \<and>
   isStreaming (start_session :: string session) \<and>
   processBuffer sample_env ''openai'' (buffer start_session @ ''data: '' @ openai_tool_only @ [newline]) =
     ([Tool_call weather_fragment], []) \<and>
   dispatch_item sample_env pending_tool (Tool_call weather_fragment) start_session =
     (None, start_session\<lparr>toolCallsAcc := toolCallsAcc start_session @ [weather_fragment],
                          calls := calls start_session @ [Call_onToolCall weather_fragment]\<rparr>) \<and>
   (\<exists>later. calls (snd (dispatch sample_env pending_tool
                           [Tool_call weather_fragment, Token (Str ''Hi'')] start_session)) =
      calls start_session @ Call_onToolCall weather_fragment # Call_onToken (Str ''Hi'') # later) \<and>
   read_loop sample_env pending_tool ''openai''
     [Chunk (''data: '' @ openai_tool_only @ [newline]) False,
      Chunk (''data: '' @ openai_hi @ [newline]) False] start_session =
   read_loop sample_env pending_tool ''openai'' [Chunk (''data: '' @ openai_hi @ [newline]) False]
     (start_session\<lparr>buffer := [], toolCallsAcc := toolCallsAcc start_session @ [weather_fragment],
                    calls := calls start_session @ [Call_onToolCall weather_fragment]\<rparr>) \<and>
   handleStream sample_env (resettle (\<lambda>h d. Rejected tool_failed) pending_tool) ''openai''
     (Reader [Chunk (''data: '' @ openai_tool_only @ [newline]) False,
              Chunk (''data: '' @ openai_hi @ [newline]) False]) =
   handleStream sample_env pending_tool ''openai''
     (Reader [Chunk (''data: '' @ openai_tool_only @ [newline]) False,
              Chunk (''data: '' @ openai_hi @ [newline]) False]) \<and>
   handleStream sample_env pending_tool ''openai''
     (Reader [Chunk (''data: '' @ openai_tool_only @ [newline]) False,
              Chunk (''data: '' @ openai_hi @ [newline]) False]) =
   (Inr \<lparr>content = ''Hi'', toolCalls = [weather_fragment], thinkingContent = [], finishReason = ''stop''\<rparr>,
    \<lparr>buffer = [], isStreaming = False, fullContent = ''Hi'', toolCallsAcc = [weather_fragment],
     thinkingContentAcc = [],
     calls = [Call_onToolCall weather_fragment, Call_onToken (Str ''Hi''),
              Call_onComplete \<lparr>content = ''Hi'', toolCalls = [weather_fragment], thinkingContent = [],
                               finishReason = ''stop''\<rparr>]\<rparr>)"
proof -
  have ret: "onToolCall pending_tool (calls start_session) weather_fragment = Returns (Promise Pending)"
    by (simp add: pending_tool_def)
  have shown: "ToString sample_env (Str ''Hi'') = Some ''Hi''"
    by simp
  have st: "isStreaming (start_session :: string session)"
    by (simp add: start_session_def)
  have pb: "processBuffer sample_env ''openai''
       (buffer start_session @ ''data: '' @ openai_tool_only @ [newline]) =
     ([Tool_call weather_fragment], [])"
    by code_simp
  have run: "handleStream sample_env pending_tool ''openai''
     (Reader [Chunk (''data: '' @ openai_tool_only @ [newline]) False,
              Chunk (''data: '' @ openai_hi @ [newline]) False]) =
   (Inr \<lparr>content = ''Hi'', toolCalls = [weather_fragment], thinkingContent = [], finishReason = ''stop''\<rparr>,
    \<lparr>buffer = [], isStreaming = False, fullContent = ''Hi'', toolCallsAcc = [weather_fragment],
     thinkingContentAcc = [],
     calls = [Call_onToolCall weather_fragment, Call_onToken (Str ''Hi''),
              Call_onComplete \<lparr>content = ''Hi'', toolCalls = [weather_fragment], thinkingContent = [],
                               finishReason = ''stop''\<rparr>]\<rparr>)"
    by code_simp
  note all = tool_call_dispatched_without_waiting
    [where cbs = pending_tool and s = start_session and d = weather_fragment
       and v = "Promise Pending" and env = sample_env and c = "Str ''Hi''" and shown = "''Hi''"
       and items = "[]" and provider = "''openai''"
       and chunk = "''data: '' @ openai_tool_only @ [newline]" and remainder = "[]"
       and reads = "[Chunk (''data: '' @ openai_hi @ [newline]) False]"
       and f = "\<lambda>h d. Rejected tool_failed"
       and response = "Reader [Chunk (''data: '' @ openai_tool_only @ [newline]) False,
                               Chunk (''data: '' @ openai_hi @ [newline]) False]"]
  have one: "dispatch_item sample_env pending_tool (Tool_call weather_fragment) start_session =
     (None, start_session\<lparr>toolCallsAcc := toolCallsAcc start_session @ [weather_fragment],
                          calls := calls start_session @ [Call_onToolCall weather_fragment]\<rparr>)"
    by (rule all [THEN conjunct1, THEN mp, OF ret])
  have two: "\<exists>later. calls (snd (dispatch sample_env pending_tool
                           [Tool_call weather_fragment, Token (Str ''Hi'')] start_session)) =
      calls start_session @ Call_onToolCall weather_fragment # Call_onToken (Str ''Hi'') # later"
    by (rule all [THEN conjunct2, THEN conjunct1, THEN mp, OF conjI [OF ret shown]])
  have three: "read_loop sample_env pending_tool ''openai''
     [Chunk (''data: '' @ openai_tool_only @ [newline]) False,
      Chunk (''data: '' @ openai_hi @ [newline]) False] start_session =
   read_loop sample_env pending_tool ''openai'' [Chunk (''data: '' @ openai_hi @ [newline]) False]
     (start_session\<lparr>buffer := [], toolCallsAcc := toolCallsAcc start_session @ [weather_fragment],
                    calls := calls start_session @ [Call_onToolCall weather_fragment]\<rparr>)"
    by (rule all [THEN conjunct2, THEN conjunct2, THEN conjunct1, THEN mp,
                  OF conjI [OF st conjI [OF pb ret]]])
  show ?thesis
    by (intro conjI ret shown st pb one two three run
          all [THEN conjunct2, THEN conjunct2, THEN conjunct2])
qed

text \<open>
  C6. For every provider tag, a complete line whose JSON payload fails to parse (the line
  itself for NDJSON, the text after the \<^verbatim>\<open>data: \<close> prefix for the two SSE formats)
  contributes no item and does not stop the pass: the pass gives the items and the
  remainder it gives without that line. No exception can leave a pass: it is a function
  from the buffer to the items and the remainder.
\<close>

theorem malformed_line_dropped:
  assumes "newline \<notin> set line"
    and "if provider = ''gemini'' then JSON_parse env line = None
         else JSON_parse env (drop 6 line) = None"
    and "before = [] \<or> last before = newline"
  shows "processBuffer env provider (before @ line @ [newline] @ after) =
         processBuffer env provider (before @ after)"
proof -
  have "line_body env provider line = []"
  proof (cases "provider = ''gemini''")
    case True
    then show ?thesis
      using assms(2) by (simp add: line_body_def gemini_line_malformed)
  next
    case False
    then have "JSON_parse env (drop 6 line) = None"
      using assms(2) by simp
    then show ?thesis
      using False by (simp add: line_body_def openai_line_malformed anthropic_line_malformed)
  qed
  then show ?thesis
    unfolding processBuffer_decode_lines
    by (intro decode_lines_drop_line assms(1) assms(3))
qed

theorem malformed_line_dropped_witness:
  "newline \<notin> set ''data: {\"choices\":'' \<and>
   JSON_parse sample_env (drop 6 ''data: {\"choices\":'') = None \<and>
   processBuffer sample_env ''openai''
     ((''data: '' @ openai_hi @ [newline]) @ ''data: {\"choices\":'' @ [newline]
        @ (''data: '' @ openai_length @ [newline])) =
   ([Token (Str ''Hi''), Token (Str ''lo''), Finish (Str ''length'')], [])"
proof -
  have nl: "newline \<notin> set ''data: {\"choices\":''"
    by (simp add: newline_def)
  have bad: "if ''openai'' = ''gemini'' then JSON_parse sample_env ''data: {\"choices\":'' = None
             else JSON_parse sample_env (drop 6 ''data: {\"choices\":'') = None"
    by code_simp
  have before: "''data: '' @ openai_hi @ [newline] = [] \<or> last (''data: '' @ openai_hi @ [newline]) = newline"
    by simp
  have "processBuffer sample_env ''openai''
          ((''data: '' @ openai_hi @ [newline]) @ (''data: '' @ openai_length @ [newline])) =
        ([Token (Str ''Hi''), Token (Str ''lo''), Finish (Str ''length'')], [])"
    by code_simp
  then show ?thesis
    using nl bad malformed_line_dropped [OF nl bad before, of "''data: '' @ openai_length @ [newline]"]
    by simp
qed

text \<open>
  C7. Whenever \<^verbatim>\<open>handleStream\<close> fulfils its promise, by end of data or after a requested
  stop, the \<^verbatim>\<open>finishReason\<close> of the result is the string \<^verbatim>\<open>stop\<close>, whatever finish items
  were decoded.
\<close>

theorem finishReason_is_stop:
  "fst (handleStream env cbs provider response) = Inr r \<Longrightarrow> finishReason r = ''stop''"
  using handleStream_Inr try_block_result by blast

theorem finishReason_is_stop_witness:
  "fst (processBuffer sample_env ''openai'' (''data: '' @ openai_length @ [newline])) =
     [Token (Str ''lo''), Finish (Str ''length'')] \<and>
   fst (handleStream sample_env no_callbacks ''openai''
          (Reader [Chunk (''data: '' @ openai_length @ [newline]) False])) =
     Inr \<lparr>content = ''lo'', toolCalls = [], thinkingContent = [], finishReason = ''stop''\<rparr> \<and>
   fst (handleStream sample_env no_callbacks ''openai''
          (Reader [Chunk (''data: '' @ openai_length @ [newline]) True,
                   Chunk (''data: '' @ openai_hi @ [newline]) False])) =
     Inr \<lparr>content = ''lo'', toolCalls = [], thinkingContent = [], finishReason = ''stop''\<rparr> \<and>
   finishReason \<lparr>content = ''lo'', toolCalls = [], thinkingContent = [], finishReason = ''stop''\<rparr>
     = ''stop''"
proof -
  have stopped: "fst (handleStream sample_env no_callbacks ''openai''
          (Reader [Chunk (''data: '' @ openai_length @ [newline]) True,
                   Chunk (''data: '' @ openai_hi @ [newline]) False])) =
     Inr \<lparr>content = ''lo'', toolCalls = [], thinkingContent = [], finishReason = ''stop''\<rparr>"
    by code_simp
  have run: "fst (handleStream sample_env no_callbacks ''openai''
          (Reader [Chunk (''data: '' @ openai_length @ [newline]) False])) =
     Inr \<lparr>content = ''lo'', toolCalls = [], thinkingContent = [], finishReason = ''stop''\<rparr>"
    by code_simp
  have items: "fst (processBuffer sample_env ''openai'' (''data: '' @ openai_length @ [newline])) =
     [Token (Str ''lo''), Finish (Str ''length'')]"
    by code_simp
  show ?thesis
    using run items stopped finishReason_is_stop [OF run] by simp
qed

text \<open>
  C9. For every provider tag and every buffer, a decoder produces only items of type
  token, tool call or finish, never thinking and never error. Consequently the thinking
  text of \<^verbatim>\<open>handleStream\<close> stays empty, in the state and in the result, \<^verbatim>\<open>onThinking\<close> is
  never invoked, and the branch of the read loop that aborts on an error item is not taken
  for decoded input: with callbacks that do nothing, dispatching the items of a pass never
  throws a stream failure.
\<close>

theorem decoders_emit_only_token_tool_call_finish:
  "list_all decoded (fst (processBuffer env provider buf)) \<and>
   thinkingContentAcc (snd (handleStream env cbs provider response)) = [] \<and>
   (case fst (handleStream env cbs provider response) of
      Inl t \<Rightarrow> True | Inr r \<Rightarrow> thinkingContent r = []) \<and>
   \<not> list_ex is_onThinking (calls (snd (handleStream env cbs provider response))) \<and>
   (\<forall>e. fst (dispatch env no_callbacks (fst (processBuffer env provider buf)) s)
          \<noteq> Some (StreamError_instance e))"
proof -
  have q: "quiet (snd (handleStream env cbs provider response))" by (rule handleStream_quiet)
  have no_error: "fst (dispatch env no_callbacks (fst (processBuffer env provider buf)) s)
          \<noteq> Some (StreamError_instance e)" for e
    using dispatch_decoded_throws [OF processBuffer_decoded [of env provider buf], where env = env and s = s]
    by auto
  have "thinkingContent r = []" if a: "fst (handleStream env cbs provider response) = Inr r" for r
  proof -
    obtain s' where tb: "try_block env cbs provider response = (Inr r, s')"
      using handleStream_Inr [OF a] by blast
    have "quiet s'" using try_block_quiet [of env cbs provider response] by (simp add: tb)
    then show ?thesis using try_block_result [OF tb] by (simp add: quiet_def)
  qed
  then show ?thesis
    using q processBuffer_decoded [of env provider buf] no_error
    by (simp add: quiet_def split: sum.splits)
qed

text \<open>
  C2, as amended. A delta-SSE pass splits the buffer on newline and keeps the last element
  as the remainder; of the other lines, blank lines and the sentinel produce nothing, and
  a line prefixed \<^verbatim>\<open>data: \<close> is parsed after stripping the prefix. Line by line: if the
  parsed payload's \<^verbatim>\<open>choices[0].delta.tool_calls\<close>, when present, can be iterated and has
  no \<^verbatim>\<open>null\<close> entry, the line yields the items of the description (one token for a
  non-empty content, one tool call with \<^verbatim>\<open>id\<close>, \<^verbatim>\<open>name\<close> and the raw \<^verbatim>\<open>arguments\<close> for
  each entry with a function payload, one finish item for a finish reason); otherwise it
  yields the token, the tool calls of the entries before the first \<^verbatim>\<open>null\<close> entry, and no
  finish item. The other lines of the buffer are not affected.
\<close>

theorem delta_sse_pass_line_by_line:
  "processOpenAIBuffer env buf =
     (concat (map (described_line env) (butlast (split buf))), last (split buf))"
  by (simp add: processOpenAIBuffer_def Let_def pop_or_empty_last for_lines_cong_all
        openai_line_described list_all_iff)

theorem delta_sse_pass_line_by_line_witness:
  "map (line_iterable sample_env) (butlast (split mixed_lines)) =
     [True, False, True, False, True, True] \<and>
   processOpenAIBuffer sample_env mixed_lines =
     ([Token (Str ''Hi''), Token (Str ''Hi''),
       Tool_call (Obj [(''id'', Str ''call_1''), (''name'', Str ''get_weather''), (''arguments'', Str ''{'')]),
       Finish (Str ''tool_calls'')],
      ''data: {'')"
proof -
  have which: "map (line_iterable sample_env) (butlast (split mixed_lines)) =
     [True, False, True, False, True, True]"
    by code_simp
  have described: "(concat (map (described_line sample_env) (butlast (split mixed_lines))),
        last (split mixed_lines)) =
     ([Token (Str ''Hi''), Token (Str ''Hi''),
       Tool_call (Obj [(''id'', Str ''call_1''), (''name'', Str ''get_weather''), (''arguments'', Str ''{'')]),
       Finish (Str ''tool_calls'')],
      ''data: {'')"
    by code_simp
  have "processOpenAIBuffer sample_env mixed_lines =
     ([Token (Str ''Hi''), Token (Str ''Hi''),
       Tool_call (Obj [(''id'', Str ''call_1''), (''name'', Str ''get_weather''), (''arguments'', Str ''{'')]),
       Finish (Str ''tool_calls'')],
      ''data: {'')"
    by (rule trans [OF delta_sse_pass_line_by_line [of sample_env mixed_lines] described])
  with which show ?thesis by (rule conjI)
qed

text \<open>
  C2 as stated fails: a payload whose \<^verbatim>\<open>tool_calls\<close> array holds \<^verbatim>\<open>null\<close> before an entry
  with a function payload, and which has a finish reason, yields no item at all (reading
  \<^verbatim>\<open>toolCall.function\<close> of \<^verbatim>\<open>null\<close> throws inside the \<^verbatim>\<open>try\<close> block), where the description
  yields one tool call and one finish item. A payload whose \<^verbatim>\<open>tool_calls\<close> is an object
  yields its token but not its finish item (an object cannot be iterated).
\<close>

theorem delta_sse_null_entry_counterexample:
  "processOpenAIBuffer sample_env (''data: '' @ openai_null_entry @ [newline]) = ([], []) \<and>
   spec_delta_sse sample_env (''data: '' @ openai_null_entry @ [newline]) =
     ([Tool_call (Obj [(''id'', Str ''call_1''), (''name'', Str ''get_weather''), (''arguments'', Str ''{}'')]),
       Finish (Str ''tool_calls'')], []) \<and>
   processOpenAIBuffer sample_env (''data: '' @ openai_object_tool_calls @ [newline]) =
     ([Token (Str ''Hi'')], []) \<and>
   spec_delta_sse sample_env (''data: '' @ openai_object_tool_calls @ [newline]) =
     ([Token (Str ''Hi''), Finish (Str ''stop'')], [])"
  by code_simp

text \<open>
  C3. The claim is that every tool call item carries its arguments under \<^verbatim>\<open>arguments\<close>.
  The typed-SSE decoder stores them under \<^verbatim>\<open>input\<close>: for a \<^verbatim>\<open>tool_use\<close> block the item's
  data has the properties \<^verbatim>\<open>id\<close>, \<^verbatim>\<open>name\<close> and \<^verbatim>\<open>input\<close>, and reading \<^verbatim>\<open>arguments\<close> from it
  gives \<^verbatim>\<open>undefined\<close>. The streaming dispatch closure reads \<^verbatim>\<open>toolCall.arguments\<close>: it
  logs and executes the tool with \<^verbatim>\<open>undefined\<close> arguments.
\<close>

theorem anthropic_tool_call_carries_input:
  "fst (processBuffer sample_env ''anthropic'' (''data: '' @ anthropic_tool_use @ [newline])) =
     [Tool_call (Obj [(''id'', Str ''toolu_1''), (''name'', Str ''get_weather''), (''input'', Obj [])])] \<and>
   get (Obj [(''id'', Str ''toolu_1''), (''name'', Str ''get_weather''), (''input'', Obj [])]) ''arguments''
     = (Undefined :: string js_value) \<and>
   streaming_onToolCall sample_env echo_registry no_options
     (Obj [(''id'', Str ''toolu_1''), (''name'', Str ''get_weather''), (''input'', Obj [])]) =
     (Inr (Obj [(''result'', Undefined)]),
      [SetAction ''Executing tool: get_weather'',
       LogToolCallInitiated (Str ''get_weather'') Undefined,
       LogToolCallCompleted (Str ''get_weather'') Undefined Undefined])"
  by code_simp

text \<open>
  C4, as amended. If an exception is raised during a \<^verbatim>\<open>handleStream\<close> invocation by the
  transport (\<^verbatim>\<open>getReader\<close>, or a read that the loop performs) or by an invoked callback
  (\<^verbatim>\<open>onToken\<close>, \<^verbatim>\<open>onToolCall\<close>, \<^verbatim>\<open>onThinking\<close>, \<^verbatim>\<open>onComplete\<close>), the thrown value is not
  \<^verbatim>\<open>null\<close> or \<^verbatim>\<open>undefined\<close>, and \<^verbatim>\<open>onError\<close> itself returns, then \<^verbatim>\<open>handleStream\<close> catches
  it, wraps it into a stream failure with code \<^verbatim>\<open>PARSE_FAILED\<close> unless it is a
  \<^verbatim>\<open>StreamError\<close> already, invokes \<^verbatim>\<open>onError\<close> exactly once, with that error, and rejects
  the promise with that same error.
\<close>

theorem exception_wrapped_reported_rethrown:
  assumes "raised env cbs provider response t"
    and "\<not> nullish_thrown t"
    and "returns_normally
           (onError cbs (calls (snd (try_block env cbs provider response))) (wrapped t))"
  shows "fst (handleStream env cbs provider response) = Inl (StreamError_instance (wrapped t)) \<and>
         filter is_onError (calls (snd (handleStream env cbs provider response))) =
           [Call_onError (wrapped t)]"
proof -
  have "fst (try_block env cbs provider response) = Inl t"
    by (rule raised_leaves_try_block [OF assms(1)])
  then obtain s where tb: "try_block env cbs provider response = (Inl t, s)"
    by (cases "try_block env cbs provider response") simp
  have r: "returns_normally (onError cbs (calls s) (wrapped t))"
    using assms(3) by (simp add: tb)
  have u: "filter is_onError (calls s) = []"
    using try_block_unreported [of env cbs provider response] by (simp add: tb unreported_def)
  show ?thesis
    using catch_clause_wraps [OF assms(2) r, of env] u
    by (simp add: handleStream_def tb case_prod_beta)
qed

theorem exception_wrapped_reported_rethrown_witness:
  "raised sample_env throwing_onToken ''openai''
     (Reader [Chunk (''data: '' @ openai_hi @ [newline]) False]) (Other bad_callback) \<and>
   \<not> nullish_thrown (Other bad_callback) \<and>
   fst (handleStream sample_env throwing_onToken ''openai''
          (Reader [Chunk (''data: '' @ openai_hi @ [newline]) False])) =
     Inl (StreamError_instance
            \<lparr>message = ''Stream processing failed'', code = ''STR_PARSE_FAILED'',
             details = [(''originalError'', Str ''bad callback''), (''stack'', Str ''at onToken'')]\<rparr>) \<and>
   filter is_onError (calls (snd (handleStream sample_env throwing_onToken ''openai''
          (Reader [Chunk (''data: '' @ openai_hi @ [newline]) False])))) =
     [Call_onError
        \<lparr>message = ''Stream processing failed'', code = ''STR_PARSE_FAILED'',
         details = [(''originalError'', Str ''bad callback''), (''stack'', Str ''at onToken'')]\<rparr>] \<and>
   raised sample_env no_callbacks ''openai''
     (Reader [Chunk (''data: '' @ openai_hi @ [newline]) False, Read_throws (Other network_down)])
     (Other network_down) \<and>
   fst (handleStream sample_env no_callbacks ''openai''
          (Reader [Chunk (''data: '' @ openai_hi @ [newline]) False, Read_throws (Other network_down)])) =
     Inl (StreamError_instance
            \<lparr>message = ''Stream processing failed'', code = ''STR_PARSE_FAILED'',
             details = [(''originalError'', Str ''network down''), (''stack'', Str ''at read'')]\<rparr>)"
proof -
  let ?token = "Reader [Chunk (''data: '' @ openai_hi @ [newline]) False] :: string response"
  let ?read = "Reader [Chunk (''data: '' @ openai_hi @ [newline]) False, Read_throws (Other network_down)]
                 :: string response"
  have raised1: "raised sample_env throwing_onToken ''openai'' ?token (Other bad_callback)"
    by code_simp
  have defined1: "\<not> nullish_thrown (Other bad_callback)"
    by (simp add: nullish_thrown_def bad_callback_def)
  have returns1: "returns_normally
     (onError throwing_onToken (calls (snd (try_block sample_env throwing_onToken ''openai'' ?token)))
        (wrapped (Other bad_callback)))"
    by (simp add: throwing_onToken_def no_callbacks_def)
  have w1: "wrapped (Other bad_callback) =
     \<lparr>message = ''Stream processing failed'', code = ''STR_PARSE_FAILED'',
      details = [(''originalError'', Str ''bad callback''), (''stack'', Str ''at onToken'')]\<rparr>"
    by code_simp
  note caught1 = exception_wrapped_reported_rethrown [OF raised1 defined1 returns1, unfolded w1]
  have raised2: "raised sample_env no_callbacks ''openai'' ?read (Other network_down)"
    by code_simp
  have defined2: "\<not> nullish_thrown (Other network_down)"
    by (simp add: nullish_thrown_def network_down_def)
  have returns2: "returns_normally
     (onError no_callbacks (calls (snd (try_block sample_env no_callbacks ''openai'' ?read)))
        (wrapped (Other network_down)))"
    by (simp add: no_callbacks_def)
  have w2: "wrapped (Other network_down) =
     \<lparr>message = ''Stream processing failed'', code = ''STR_PARSE_FAILED'',
      details = [(''originalError'', Str ''network down''), (''stack'', Str ''at read'')]\<rparr>"
    by code_simp
  note caught2 = exception_wrapped_reported_rethrown [OF raised2 defined2 returns2, unfolded w2]
  show ?thesis
    by (intro conjI raised1 defined1 raised2 caught1 [THEN conjunct1] caught1 [THEN conjunct2]
          caught2 [THEN conjunct1])
qed

text \<open>
  C4 as stated fails. When a read throws and \<^verbatim>\<open>onError\<close> throws in turn, \<^verbatim>\<open>onError\<close> has
  been invoked once with the wrapped error, but the promise is rejected with what \<^verbatim>\<open>onError\<close>
  threw, which is neither caught nor wrapped. When a callback throws \<^verbatim>\<open>null\<close>, reading
  \<^verbatim>\<open>error.message\<close> in the \<^verbatim>\<open>catch\<close> clause throws a TypeError: \<^verbatim>\<open>onError\<close> is not invoked and
  the promise is rejected with the TypeError.
\<close>

theorem onError_throws_counterexample:
  "fst (handleStream sample_env throwing_onError ''openai'' (Reader [Read_throws (Other network_down)])) =
     Inl (Other (Str ''boom'')) \<and>
   filter is_onError (calls (snd (handleStream sample_env throwing_onError ''openai''
        (Reader [Read_throws (Other network_down)])))) =
     [Call_onError
        \<lparr>message = ''Stream processing failed'', code = ''STR_PARSE_FAILED'',
         details = [(''originalError'', Str ''network down''), (''stack'', Str ''at read'')]\<rparr>] \<and>
   fst (handleStream sample_env throwing_null ''openai''
          (Reader [Chunk (''data: '' @ openai_hi @ [newline]) False])) =
     Inl (Other (TypeError sample_env)) \<and>
   filter is_onError (calls (snd (handleStream sample_env throwing_null ''openai''
          (Reader [Chunk (''data: '' @ openai_hi @ [newline]) False])))) = []"
  by code_simp

text \<open>
  C8. When the registry has the tool and \<^verbatim>\<open>executeTool\<close> fails with an error, the promise
  of the streaming path's \<^verbatim>\<open>onToolCall\<close> closure is rejected with that error; in
  \<^verbatim>\<open>handleNonStreamingResponse\<close> the same failure is logged and not re-raised: every tool
  call of the response is initiated, in order, and the function returns the parsed result.
  (The tool calls are dispatchable, the tool's name prints, and the caller's \<^verbatim>\<open>onComplete\<close>
  returns: exceptions other than the tool's are not the subject.)
\<close>

theorem executeTool_failure_rethrown_in_stream_logged_otherwise:
  assumes "dispatchable opts toolCall"
    and "ToString env (get toolCall ''name'') \<noteq> None"
    and "hasTool reg (get toolCall ''name'')"
    and "executeTool reg (get toolCall ''name'') (get toolCall ''arguments'') = Inl error"
    and "response_json = Inr data"
    and "parseResponse data = Inr result"
    and "parsed_toolCalls result = Some tcs"
    and "toolCall \<in> set tcs"
    and "list_all (dispatchable opts) tcs"
    and "fst (call_option (options_onComplete opts) result (Options_onComplete result)) = None"
  shows "fst (streaming_onToolCall env reg opts toolCall) = Inl error \<and>
         fst (handleNonStreamingResponse env reg opts response_json parseResponse) = Inr result \<and>
         filter is_initiated (snd (handleNonStreamingResponse env reg opts response_json parseResponse)) =
           map (\<lambda>tc. LogToolCallInitiated (get tc ''name'') (get tc ''arguments'')) tcs \<and>
         LogToolCallFailed (get toolCall ''name'') (get toolCall ''arguments'') error
           \<in> set (snd (handleNonStreamingResponse env reg opts response_json parseResponse))"
proof -
  obtain name where n: "member toolCall ''name'' = Some name"
    using assms(1) by (auto simp: dispatchable_def)
  then have g: "get toolCall ''name'' = name" by (simp add: get_def)
  obtain shown where sh: "ToString env name = Some shown"
    using assms(2) g by auto
  obtain fx1 where c: "call_option (options_onToolCall opts) toolCall (Options_onToolCall toolCall) = (None, fx1)"
    using assms(1) by (cases "call_option (options_onToolCall opts) toolCall (Options_onToolCall toolCall)")
      (simp add: dispatchable_def callback_returns_def)
  have streaming: "fst (streaming_onToolCall env reg opts toolCall) = Inl error"
    using assms(3,4) g
    by (simp add: streaming_onToolCall_def n sh c Let_def execute_and_log_failed)
  have ne: "tcs \<noteq> []" using assms(8) by auto
  obtain fx4 where oc: "call_option (options_onComplete opts) result (Options_onComplete result) = (None, fx4)"
    using assms(10) by (cases "call_option (options_onComplete opts) result (Options_onComplete result)") simp
  have fx4: "filter is_initiated fx4 = []"
    using oc by (auto simp: call_option_def split: option.splits)
  have loop: "fst (tool_calls_loop env reg opts tcs) = None"
    and init: "filter is_initiated (snd (tool_calls_loop env reg opts tcs)) =
       map (\<lambda>tc. LogToolCallInitiated (get tc ''name'') (get tc ''arguments'')) tcs"
    using tool_calls_loop_completes [OF assms(9)] by simp_all
  have failed: "LogToolCallFailed (get toolCall ''name'') (get toolCall ''arguments'') error
     \<in> set (snd (tool_calls_loop env reg opts tcs))"
    by (rule tool_calls_loop_logs_failure [OF assms(9) assms(8) assms(3) assms(4)])
  show ?thesis
    using streaming loop init failed ne fx4
    by (simp add: handleNonStreamingResponse_def assms(5,6,7) oc Let_def case_prod_beta)
qed

theorem executeTool_failure_witness:
  "dispatchable no_options weather_call \<and>
   hasTool failing_registry (get weather_call ''name'') \<and>
   executeTool failing_registry (get weather_call ''name'') (get weather_call ''arguments'') = Inl tool_failed \<and>
   weather_call \<in> set [weather_call, time_call] \<and>
   fst (streaming_onToolCall sample_env failing_registry no_options weather_call) = Inl tool_failed \<and>
   fst (handleNonStreamingResponse sample_env failing_registry no_options (Inr Null) (\<lambda>data. Inr two_calls)) =
     Inr two_calls \<and>
   handleNonStreamingResponse sample_env failing_registry no_options (Inr Null) (\<lambda>data. Inr two_calls) =
     (Inr two_calls,
      [SetAction ''Parsing response'', LogApiResponse,
       LogAssistantMessageCompleted (Str []) (Str ''tool_calls''),
       SetAction ''Processing tool calls'',
       LogToolCallInitiated (Str ''get_weather'') (Str ''{}''),
       LogToolCallFailed (Str ''get_weather'') (Str ''{}'') tool_failed,
       ConsoleError tool_failed,
       LogToolCallInitiated (Str ''get_time'') (Str ''{}''),
       UpdateTaskStatus ''completed'' (Str []), StopThinking])"
proof -
  have d: "dispatchable no_options weather_call"
    by code_simp
  have p: "ToString sample_env (get weather_call ''name'') \<noteq> None"
    by code_simp
  have h: "hasTool failing_registry (get weather_call ''name'')"
    by code_simp
  have x: "executeTool failing_registry (get weather_call ''name'') (get weather_call ''arguments'')
             = Inl tool_failed"
    by (simp add: failing_registry_def)
  have t: "parsed_toolCalls two_calls = Some [weather_call, time_call]"
    by (simp add: two_calls_def)
  have m: "weather_call \<in> set [weather_call, time_call]"
    by simp
  have a: "list_all (dispatchable no_options) [weather_call, time_call]"
    by code_simp
  have c: "fst (call_option (options_onComplete no_options) two_calls (Options_onComplete two_calls)) = None"
    by (simp add: no_options_def call_option_def)
  have n: "handleNonStreamingResponse sample_env failing_registry no_options (Inr Null) (\<lambda>data. Inr two_calls) =
     (Inr two_calls,
      [SetAction ''Parsing response'', LogApiResponse,
       LogAssistantMessageCompleted (Str []) (Str ''tool_calls''),
       SetAction ''Processing tool calls'',
       LogToolCallInitiated (Str ''get_weather'') (Str ''{}''),
       LogToolCallFailed (Str ''get_weather'') (Str ''{}'') tool_failed,
       ConsoleError tool_failed,
       LogToolCallInitiated (Str ''get_time'') (Str ''{}''),
       UpdateTaskStatus ''completed'' (Str []), StopThinking])"
    by code_simp
  have rj: "Inr Null = (Inr Null :: string thrown + string js_value)"
    by (rule refl)
  have pr: "(\<lambda>data. Inr two_calls) (Null :: string js_value) = (Inr two_calls :: string thrown + string parsed)"
    by simp
  note concl = executeTool_failure_rethrown_in_stream_logged_otherwise
        [where opts = no_options and toolCall = weather_call and env = sample_env
           and reg = failing_registry and error = tool_failed and response_json = "Inr Null"
           and data = Null and parseResponse = "\<lambda>data. Inr two_calls" and result = two_calls
           and tcs = "[weather_call, time_call]", OF d p h x rj pr t m a c]
  show ?thesis
    by (intro conjI d h x m n concl [THEN conjunct1] concl [THEN conjunct2, THEN conjunct1])
qed

end
